theory Spec2Isabelle
  imports Complex_Main "HOL-Library.Sublist" "HOL-Library.Multiset"
begin

section \<open>Graph layout of scirpy (\<open>scirpy/util/graph.py\<close>)\<close>

text \<open>
  The module builds an igraph graph from a sparse matrix and computes layout coordinates
  component by component. This theory embeds its functions and checks the properties the
  specification states about them.

  Conventions of the embedding.
  \<^item> numpy's float64 values are modelled as \<^typ>\<open>real\<close>: arithmetic is exact, and
    \<open>inf\<close>/\<open>nan\<close> do not exist. Where numpy would produce such a value (a division
    by zero gives a RuntimeWarning and \<open>inf\<close>/\<open>nan\<close>, no exception), the model stops
    with \<open>NonFiniteResult\<close> instead of inventing a real number.
  \<^item> A sparse matrix carries its dtype. The values of an integer dtype are integers, held
    as reals, and arithmetic carried out in an integer dtype wraps around.
  \<^item> Matrices are objects in a store, so that a call that changes a matrix in place, as
    scipy's \<open>max\<close> does when it sums the duplicate entries, changes the object the
    caller holds.
  \<^item> Python exceptions are values of \<open>error\<close>; a function that can raise returns
    \<open>error + 'a\<close>.
  \<^item> A leading underscore of a Python name is dropped (\<open>_rescale_layout\<close> is
    \<open>rescale_layout\<close>).
  \<^item> The functions of numpy, scipy, igraph, rpack and squarify are not part of the module.
    The ones whose result is fixed by their documentation are written out; the others
    (\<open>numpy.argsort\<close> with its default sort kind, \<open>Graph.decompose\<close>,
    \<open>Graph.layout\<close>, \<open>rpack.pack\<close>, \<open>squarify\<close>) are fields of an environment
    record, and a theorem states what it needs of the calls the code makes.
\<close>

subsection \<open>Errors\<close>

datatype error =
    ValueError string
  | ImportError string
  | KeyError string
  | IndexError
  | ZeroDivisionError
  | OverflowError
  | InternalError
  | NonFiniteResult

subsection \<open>Bounding boxes\<close>

text \<open>A bounding box is the tuple \<open>(x, y, width, height)\<close>.\<close>

type_synonym bbox = "real \<times> real \<times> real \<times> real"

text \<open>\<open>_get_bbox_dimensions(n, power)\<close> returns \<open>(n ** power, n ** power)\<close>.\<close>

definition get_bbox_dimensions :: "nat \<Rightarrow> real \<Rightarrow> real \<times> real" where
  "get_bbox_dimensions n pw = (real n powr pw, real n powr pw)"

subsection \<open>\<open>_bbox_sorted\<close>: one row per component size\<close>

text \<open>
  The loop of \<open>_bbox_sorted\<close> with its variables \<open>x\<close>, \<open>y\<close> and \<open>current_n\<close> as
  arguments; the result is the list of boxes appended from here on.
\<close>

fun bbox_sorted_loop :: "real \<Rightarrow> real \<Rightarrow> nat list \<Rightarrow> real \<Rightarrow> real \<Rightarrow> nat \<Rightarrow> bbox list" where
  "bbox_sorted_loop pad_x pad_y [] x y current_n = []"
| "bbox_sorted_loop pad_x pad_y (n # ns) x y current_n =
     (let (width, height) = get_bbox_dimensions n 0.8;
          new_line = (\<not> n = current_n);
          x1 = (if new_line then 0 else x);
          y1 = (if new_line then y + height + pad_y else y);
          current_n1 = (if new_line then n else current_n)
      in (x1, y1, width, height)
           # bbox_sorted_loop pad_x pad_y ns (x1 + width + pad_x) y1 current_n1)"

definition bbox_sorted :: "nat list \<Rightarrow> real \<Rightarrow> real \<Rightarrow> bbox list" where
  "bbox_sorted component_sizes pad_x pad_y =
     bbox_sorted_loop pad_x pad_y component_sizes 0 0 1"

subsection \<open>\<open>_rescale_layout\<close>\<close>

text \<open>
  \<open>np.min(coords, axis=0)\<close> and \<open>np.max(coords, axis=0)\<close> of an array with two columns:
  the reduction over a column, which raises ValueError on an array without rows.
\<close>

definition np_min :: "real list \<Rightarrow> real" where
  "np_min xs = foldl min (hd xs) (tl xs)"

definition np_max :: "real list \<Rightarrow> real" where
  "np_max xs = foldl max (hd xs) (tl xs)"

definition rescale_layout :: "(real \<times> real) list \<Rightarrow> bbox \<Rightarrow> error + (real \<times> real) list" where
  "rescale_layout coords bbox =
     (if coords = [] then Inl (ValueError ''zero-size array to reduction operation minimum which has no identity'')
      else
        let min_x = np_min (map fst coords); min_y = np_min (map snd coords);
            max_x = np_max (map fst coords); max_y = np_max (map snd coords);
            delta_x = (if \<not> min_x = max_x then max_x - min_x else 1);
            delta_y = (if \<not> min_y = max_y then max_y - min_y else 1);
            (new_min_x, new_min_y, new_delta_x, new_delta_y) = bbox
        in if delta_x = 0 \<or> delta_y = 0 then Inl NonFiniteResult
           else Inr (map (\<lambda>(x, y). ((x - min_x) / delta_x * new_delta_x + new_min_x,
                                     (y - min_y) / delta_y * new_delta_y + new_min_y)) coords))"

subsection \<open>Element types\<close>

text \<open>
  The dtype of the stored values: floating point, or an integer type of \<open>w\<close> bits, signed
  (\<open>SInt w\<close>) or unsigned (\<open>UInt w\<close>). Every value is held as a real number; a value of
  an integer dtype is an integer of its range, and arithmetic carried out in an integer
  dtype wraps around, which \<open>wrap\<close> does to an exact result.
\<close>

datatype dtype = Float | SInt nat | UInt nat

fun wrap :: "dtype \<Rightarrow> real \<Rightarrow> real" where
  "wrap Float x = x"
| "wrap (UInt w) x = of_int (\<lfloor>x\<rfloor> mod 2 ^ w)"
| "wrap (SInt w) x = of_int ((\<lfloor>x\<rfloor> + 2 ^ w div 2) mod 2 ^ w - 2 ^ w div 2)"

fun representable :: "dtype \<Rightarrow> int \<Rightarrow> bool" where
  "representable Float k = True"
| "representable (UInt w) k = (0 \<le> k \<and> k < 2 ^ w)"
| "representable (SInt w) k = (- (2 ^ w div 2) \<le> k \<and> k < 2 ^ w div 2)"

text \<open>A Python number, as the caller passes it for \<open>max_value\<close>.\<close>

datatype py_number = PyInt int | PyFloat real

fun py_value :: "py_number \<Rightarrow> real" where
  "py_value (PyInt k) = of_int k"
| "py_value (PyFloat x) = x"

text \<open>
  What the variable \<open>max_value\<close> holds after line 65: the Python number of the caller, or
  the numpy scalar \<open>np.max\<close> returned, which has the dtype of the matrix.
\<close>

datatype scalar = Python py_number | Numpy real

fun scalar_value :: "scalar \<Rightarrow> real" where
  "scalar_value (Python p) = py_value p"
| "scalar_value (Numpy x) = x"

text \<open>
  \<open>max_value - d\<close> for the array \<open>d\<close> of dtype \<open>dt\<close>. With a Python float the result
  is a float array. With a Python int that the dtype can represent, and with a numpy
  scalar of the same dtype, the subtraction is carried out in the dtype. A Python int
  outside the range of an integer dtype raises OverflowError (numpy 2; older versions of
  numpy compute in a wider type instead, and no theorem below depends on this case).
\<close>

definition subtract_from :: "dtype \<Rightarrow> scalar \<Rightarrow> real list \<Rightarrow> error + real list" where
  "subtract_from dt max_value d =
     (case max_value of
        Numpy m \<Rightarrow> Inr (map (\<lambda>dv. wrap dt (m - dv)) d)
      | Python (PyFloat m) \<Rightarrow> Inr (map (\<lambda>dv. m - dv) d)
      | Python (PyInt m) \<Rightarrow>
          if representable dt m then Inr (map (\<lambda>dv. wrap dt (of_int m - dv)) d)
          else Inl OverflowError)"

subsection \<open>Sparse matrices and the object store\<close>

text \<open>
  A scipy sparse matrix carries its storage format, its dtype, its shape and its stored
  entries. The model keeps the stored entries row by row, each row the list of its
  (column, value) pairs in storage order: this is what the CSR arrays \<open>indptr\<close>,
  \<open>indices\<close> and \<open>data\<close> encode. A stored entry may hold the value 0 (an explicit
  zero), the columns of a row need not be sorted, and a column may occur twice in a row.
\<close>

datatype sparse_format = CSR | CSC | COO | LIL | DOK | BSR | DIA

record spmatrix =
  format :: sparse_format
  dtype :: dtype
  shape :: "nat \<times> nat"
  rows :: "(nat \<times> real) list list"

text \<open>The attribute \<open>.data\<close>: the stored values, row after row.\<close>

definition data :: "spmatrix \<Rightarrow> real list" where
  "data m = concat (map (map snd) (rows m))"

text \<open>Assigning a float array to \<open>.data\<close> replaces the stored values position by
  position and makes the matrix a float matrix.\<close>

fun set_rows_data :: "(nat \<times> real) list list \<Rightarrow> real list \<Rightarrow> (nat \<times> real) list list" where
  "set_rows_data [] vs = []"
| "set_rows_data (r # rs) vs =
     zip (map fst r) (take (length r) vs) # set_rows_data rs (drop (length r) vs)"

definition set_data :: "spmatrix \<Rightarrow> real list \<Rightarrow> spmatrix" where
  "set_data m vs = m\<lparr>dtype := Float, rows := set_rows_data (rows m) vs\<rparr>"

text \<open>
  Matrices are mutable objects: a Python variable holds a reference. The store is the list
  of the objects allocated so far, a reference is an index into it, and a new object is
  appended.
\<close>

type_synonym store = "spmatrix list"

definition alloc :: "store \<Rightarrow> spmatrix \<Rightarrow> nat \<times> store" where
  "alloc s m = (length s, s @ [m])"

text \<open>\<open>m.copy()\<close>: a new matrix that shares nothing with \<open>m\<close>.\<close>

definition copy_sp :: "store \<Rightarrow> nat \<Rightarrow> nat \<times> store" where
  "copy_sp s r = alloc s (s ! r)"

text \<open>
  \<open>m.tocsr()\<close> returns \<open>m\<close> itself when it is in CSR format already, and a new CSR
  matrix with the same entries otherwise.
\<close>

definition tocsr :: "store \<Rightarrow> nat \<Rightarrow> nat \<times> store" where
  "tocsr s r = (if format (s ! r) = CSR then (r, s) else alloc s ((s ! r)\<lparr>format := CSR\<rparr>))"

text \<open>\<open>m.eliminate_zeros()\<close> removes, in place, the stored entries whose value is 0.\<close>

definition eliminate_zeros :: "store \<Rightarrow> nat \<Rightarrow> store" where
  "eliminate_zeros s r =
     s[r := (s ! r)\<lparr>rows := map (filter (\<lambda>(j, v). v \<noteq> 0)) (rows (s ! r))\<rparr>]"

text \<open>
  A CSR matrix is in canonical format when the columns of every row are strictly
  increasing. \<open>m.sum_duplicates()\<close> brings a matrix that is not into this format, in
  place: it sorts the entries of every row by column and adds up, in the dtype, the
  entries of the same column.
\<close>

definition has_canonical_format :: "spmatrix \<Rightarrow> bool" where
  "has_canonical_format m = list_all (\<lambda>r. sorted_wrt (<) (map fst r)) (rows m)"

definition sum_duplicates_row :: "dtype \<Rightarrow> (nat \<times> real) list \<Rightarrow> (nat \<times> real) list" where
  "sum_duplicates_row dt r =
     map (\<lambda>j. (j, wrap dt (sum_list (map snd (filter (\<lambda>(j', v). j' = j) r)))))
         (sort (remdups (map fst r)))"

definition summed :: "spmatrix \<Rightarrow> spmatrix" where
  "summed m = (if has_canonical_format m then m
               else m\<lparr>rows := map (sum_duplicates_row (dtype m)) (rows m)\<rparr>)"

definition sum_duplicates :: "store \<Rightarrow> nat \<Rightarrow> store" where
  "sum_duplicates s r = s[r := summed (s ! r)]"

text \<open>
  \<open>np.max(m)\<close> of a sparse matrix is \<open>m.max()\<close>: the maximum over all positions, the
  ones without a stored entry counting as 0. It raises on a matrix with a dimension 0 and
  returns 0 for a matrix without stored entries; otherwise it calls
  \<open>m.sum_duplicates()\<close> on the matrix itself before it takes the maximum of the stored
  values.
\<close>

definition sp_max :: "store \<Rightarrow> nat \<Rightarrow> error + (real \<times> store)" where
  "sp_max s r =
     (if fst (shape (s ! r)) = 0 \<or> snd (shape (s ! r)) = 0
        then Inl (ValueError ''zero-size array to reduction operation'')
      else if data (s ! r) = [] then Inr (0, s)
      else
        let s1 = sum_duplicates s r;
            m = np_max (data (s1 ! r))
        in if length (data (s1 ! r)) \<noteq> fst (shape (s1 ! r)) * snd (shape (s1 ! r))
             then Inr (max 0 m, s1)
           else Inr (m, s1))"

subsection \<open>\<open>_distance_to_connectivity\<close>\<close>

text \<open>
  Lines 67 to 74, once \<open>max_value\<close> is known: the copy, \<open>connectivities.data - 1\<close>
  computed in the dtype of the matrix, \<open>max_value - d\<close> as \<open>subtract_from\<close> says, the
  division, which gives a float array, and the elimination of the zeros.
\<close>

definition convert_with :: "store \<Rightarrow> nat \<Rightarrow> scalar \<Rightarrow> error + (nat \<times> store)" where
  "convert_with s distances max_value =
     (let (connectivities, s1) = copy_sp s distances;
          dt = dtype (s1 ! connectivities);
          d = map (\<lambda>v. wrap dt (v - 1)) (data (s1 ! connectivities))
      in case subtract_from dt max_value d of
           Inl e \<Rightarrow> Inl e
         | Inr numerator \<Rightarrow>
             if scalar_value max_value = 0 \<and> d \<noteq> [] then Inl NonFiniteResult
             else
               let s2 = s1[connectivities :=
                          set_data (s1 ! connectivities)
                            (map (\<lambda>x. x / scalar_value max_value) numerator)];
                   s3 = eliminate_zeros s2 connectivities
               in Inr (connectivities, s3))"

text \<open>
  Lines 61 to 65: the format check, then \<open>max_value\<close>, for which line 65 calls
  \<open>np.max\<close> on the matrix passed in.
\<close>

definition distance_to_connectivity ::
    "store \<Rightarrow> nat \<Rightarrow> py_number option \<Rightarrow> error + (nat \<times> store)" where
  "distance_to_connectivity s distances max_value =
     (if format (s ! distances) \<noteq> CSR
        then Inl (ValueError ''Distance matrix must be in CSR format.'')
      else
        case max_value of
          None \<Rightarrow>
            (case sp_max s distances of
               Inl e \<Rightarrow> Inl e
             | Inr (m, s0) \<Rightarrow> convert_with s0 distances (Numpy m))
        | Some m \<Rightarrow> convert_with s distances (Python m))"

subsection \<open>\<open>_get_igraph_from_adjacency\<close> and \<open>igraph_from_sparse_matrix\<close>\<close>

text \<open>An igraph graph: the number of vertices, the edge list and the edge attribute
  \<open>weight\<close>.\<close>

record graph =
  vcount :: nat
  es :: "(nat \<times> nat) list"
  weight :: "real list"

text \<open>\<open>adj.nonzero()\<close>: the coordinates of the stored entries that are not 0, row by row.\<close>

definition nonzero :: "spmatrix \<Rightarrow> (nat \<times> nat) list" where
  "nonzero adj =
     concat (map (\<lambda>(i, r). map (\<lambda>(j, v). (i, j)) (filter (\<lambda>(j, v). v \<noteq> 0) r))
                 (zip [0..<length (rows adj)] (rows adj)))"

text \<open>\<open>adj[i, j]\<close>: the value at a coordinate, stored entries of the same coordinate summed.\<close>

definition getitem :: "spmatrix \<Rightarrow> nat \<times> nat \<Rightarrow> real" where
  "getitem adj ij = sum_list (map snd (filter (\<lambda>(j, v). j = snd ij) (rows adj ! fst ij)))"

text \<open>\<open>Graph.add_edges\<close> raises when an endpoint is not a vertex of the graph.\<close>

definition get_igraph_from_adjacency :: "spmatrix \<Rightarrow> error + graph" where
  "get_igraph_from_adjacency adj =
     (let sources_targets = nonzero adj;
          weights = map (getitem adj) sources_targets;
          n = fst (shape adj)
      in if \<exists>(a, b) \<in> set sources_targets. \<not> a < n \<or> \<not> b < n then Inl InternalError
         else Inr \<lparr>vcount = n, es = sources_targets, weight = weights\<rparr>)"

definition igraph_from_sparse_matrix ::
    "store \<Rightarrow> nat \<Rightarrow> string \<Rightarrow> py_number option \<Rightarrow> error + (graph \<times> store)" where
  "igraph_from_sparse_matrix s matrix matrix_type max_value =
     (let (matrix1, s1) = tocsr s matrix
      in if matrix_type = ''distance'' then
           (case distance_to_connectivity s1 matrix1 max_value of
              Inl e \<Rightarrow> Inl e
            | Inr (matrix2, s2) \<Rightarrow>
                (case get_igraph_from_adjacency (s2 ! matrix2) of
                   Inl e \<Rightarrow> Inl e
                 | Inr g \<Rightarrow> Inr (g, s2)))
         else
           (case get_igraph_from_adjacency (s1 ! matrix1) of
              Inl e \<Rightarrow> Inl e
            | Inr g \<Rightarrow> Inr (g, s1)))"

subsection \<open>The libraries the layout calls\<close>

text \<open>
  A component returned by \<open>Graph.decompose\<close> is a graph of its own. Of it the layout uses
  the vertex attribute \<open>id\<close>, one value per vertex of the component in the component's
  vertex order, so its vertex count is the length of that list.
\<close>

record component =
  vs_id :: "nat list"
  c_es :: "(nat \<times> nat) list"

text \<open>
  \<open>rpack.pack(sizes)\<close> returns one position per rectangle and
  \<open>rpack.enclosing_size(sizes, positions)\<close> the size of the enclosing rectangle.
\<close>

record rpack_module =
  pack :: "(int \<times> int) list \<Rightarrow> error + (int \<times> int) list"
  enclosing_size :: "(int \<times> int) list \<Rightarrow> (int \<times> int) list \<Rightarrow> int \<times> int"

text \<open>A rectangle of squarify is the dictionary with the keys \<open>x\<close>, \<open>y\<close>, \<open>dx\<close>,
  \<open>dy\<close>, here the tuple of their values in this order.\<close>

type_synonym rect = "real \<times> real \<times> real \<times> real"

record squarify_module =
  normalize_sizes :: "real list \<Rightarrow> real \<Rightarrow> real \<Rightarrow> real list"
  padded_squarify :: "real list \<Rightarrow> real \<Rightarrow> real \<Rightarrow> real \<Rightarrow> real \<Rightarrow> rect list"

text \<open>
  The environment of a call: \<open>numpy.argsort\<close> with its default sort kind, igraph's
  \<open>Graph.decompose(mode="weak")\<close> (applied to the graph whose vertex \<open>i\<close> has the
  attribute \<open>id = i\<close>) and \<open>Graph.layout\<close>, and the modules \<open>rpack\<close> and
  \<open>squarify\<close>, which are \<open>None\<close> when they are not installed.
\<close>

record env =
  np_argsort :: "int list \<Rightarrow> nat list"
  decompose :: "graph \<Rightarrow> component list"
  layout :: "component \<Rightarrow> string \<Rightarrow> (real \<times> real) list"
  rpack :: "rpack_module option"
  squarify :: "squarify_module option"

text \<open>What the documentation of \<open>numpy.argsort\<close> promises of a result \<open>idx\<close> for the
  array \<open>xs\<close>: the indices of \<open>xs\<close>, each once, in an order that sorts \<open>xs\<close>.\<close>

definition is_argsort :: "int list \<Rightarrow> nat list \<Rightarrow> bool" where
  "is_argsort xs idx = (sort idx = [0..<length xs] \<and> sorted (map (\<lambda>i. xs ! i) idx))"

text \<open>Indexing with a list of indices, \<open>xs[idx]\<close>, raises when an index is out of range.\<close>

definition np_take :: "'a list \<Rightarrow> nat list \<Rightarrow> error + 'a list" where
  "np_take xs idx =
     (if \<forall>i \<in> set idx. i < length xs then Inr (map (\<lambda>i. xs ! i) idx) else Inl IndexError)"

text \<open>Python's \<open>int(r)\<close> truncates towards zero.\<close>

definition py_int :: "real \<Rightarrow> int" where
  "py_int r = (if 0 \<le> r then \<lfloor>r\<rfloor> else \<lceil>r\<rceil>)"

subsection \<open>\<open>_bbox_rpack\<close>\<close>

definition rpack_missing :: string where
  "rpack_missing =
     ''Using the '' @ [CHR 0x27] @ ''components layout'' @ [CHR 0x27]
       @ '' requires the installation of the `rectangle-packer`. You can install it with `pip install rectangle-packer`.''"

definition bbox_rpack :: "env \<Rightarrow> nat list \<Rightarrow> real \<Rightarrow> real \<Rightarrow> error + bbox list" where
  "bbox_rpack ev component_sizes pad_x pad_y =
     (case rpack ev of
        None \<Rightarrow> Inl (ImportError rpack_missing)
      | Some rp \<Rightarrow>
          let dimensions0 = map (\<lambda>n. get_bbox_dimensions n 0.8) component_sizes;
              dimensions = map (\<lambda>(width, height). (py_int (width + pad_x), py_int (height + pad_y)))
                               (rev dimensions0)
          in case pack rp dimensions of
               Inl e \<Rightarrow> Inl e
             | Inr origins \<Rightarrow>
                 let outer_dimensions = enclosing_size rp dimensions origins
                 in if snd outer_dimensions = 0 then Inl ZeroDivisionError
                    else
                      let aspect_ratio = real_of_int (fst outer_dimensions) / real_of_int (snd outer_dimensions);
                          (scale_width, scale_height) =
                             (if aspect_ratio > 1 then (1, aspect_ratio) else (aspect_ratio, 1));
                          bboxes = map (\<lambda>((x, y), (width, height)).
                                          (real_of_int x, real_of_int y,
                                           real_of_int width * scale_width - pad_x,
                                           real_of_int height * scale_height - pad_y))
                                       (zip origins dimensions)
                      in Inr (rev bboxes))"

subsection \<open>\<open>_bbox_squarify\<close>\<close>

definition squarify_missing :: string where
  "squarify_missing =
     ''Using the '' @ [CHR 0x27] @ ''components layout'' @ [CHR 0x27]
       @ '' requires the installationof the `squarify` package. You can install it with `pip install squarify`''"

text \<open>The body of the loop over the rectangles.\<close>

definition squarify_bbox :: "real \<Rightarrow> real \<Rightarrow> rect \<Rightarrow> bbox" where
  "squarify_bbox pad_x pad_y r =
     (let (offset_x, offset_y, width, height) = r;
          delta = \<bar>width - height\<bar>
      in if width > height
           then (offset_x + delta / 2, offset_y, height - pad_x, height - pad_y)
           else (offset_x, offset_y + delta / 2, width - pad_x, width - pad_y))"

definition bbox_squarify :: "env \<Rightarrow> nat list \<Rightarrow> real \<Rightarrow> real \<Rightarrow> error + bbox list" where
  "bbox_squarify ev component_sizes pad_x pad_y =
     (case squarify ev of
        None \<Rightarrow> Inl (ImportError squarify_missing)
      | Some sq \<Rightarrow>
          let order1 = np_argsort ev (map (\<lambda>n. - int n) component_sizes);
              undo_order = np_argsort ev (map int order1)
          in case np_take component_sizes order1 of
               Inl e \<Rightarrow> Inl e
             | Inr sizes1 \<Rightarrow>
                 let sizes2 = normalize_sizes sq (map real sizes1) 100 100;
                     rects = padded_squarify sq sizes2 0 0 100 100;
                     bboxes = map (squarify_bbox pad_x pad_y) rects
                 in np_take bboxes undo_order)"

subsection \<open>\<open>_layout_component\<close> and \<open>layout_components\<close>\<close>

definition layout_component :: "env \<Rightarrow> component \<Rightarrow> bbox \<Rightarrow> string \<Rightarrow> error + (real \<times> real) list" where
  "layout_component ev compo bbox component_layout_func =
     rescale_layout (layout ev compo component_layout_func) bbox"

text \<open>The list comprehension over \<open>zip(components, bboxes)\<close>: the first component whose
  layout raises ends it.\<close>

fun layout_all :: "env \<Rightarrow> (component \<times> bbox) list \<Rightarrow> string \<Rightarrow> error + (real \<times> real) list list" where
  "layout_all ev [] component_layout = Inr []"
| "layout_all ev ((compo, bbox) # rest) component_layout =
     (case layout_component ev compo bbox component_layout of
        Inl e \<Rightarrow> Inl e
      | Inr l \<Rightarrow>
          (case layout_all ev rest component_layout of
             Inl e \<Rightarrow> Inl e
           | Inr ls \<Rightarrow> Inr (l # ls)))"

text \<open>The decomposition and the sort by size: the components in the order in which they
  are laid out, with their sizes.\<close>

definition sorted_components :: "env \<Rightarrow> graph \<Rightarrow> error + (component list \<times> nat list)" where
  "sorted_components ev g =
     (let components = decompose ev g;
          component_sizes = map (\<lambda>c. length (vs_id c)) components;
          order1 = np_argsort ev (map int component_sizes)
      in case np_take components order1 of
           Inl e \<Rightarrow> Inl e
         | Inr components1 \<Rightarrow>
             (case np_take component_sizes order1 of
                Inl e \<Rightarrow> Inl e
              | Inr component_sizes1 \<Rightarrow> Inr (components1, component_sizes1)))"

text \<open>The dictionary of the three strategies, indexed with \<open>arrange_boxes\<close>.\<close>

definition bbox_fun :: "string \<Rightarrow> error + (env \<Rightarrow> nat list \<Rightarrow> real \<Rightarrow> real \<Rightarrow> error + bbox list)" where
  "bbox_fun arrange_boxes =
     (if arrange_boxes = ''rpack'' then Inr bbox_rpack
      else if arrange_boxes = ''size'' then Inr (\<lambda>ev sizes pad_x pad_y. Inr (bbox_sorted sizes pad_x pad_y))
      else if arrange_boxes = ''squarify'' then Inr bbox_squarify
      else Inl (KeyError arrange_boxes))"

definition layout_components ::
    "env \<Rightarrow> graph \<Rightarrow> string \<Rightarrow> string \<Rightarrow> real \<Rightarrow> real \<Rightarrow> error + (real \<times> real) list" where
  "layout_components ev g component_layout arrange_boxes pad_x pad_y =
     (case sorted_components ev g of
        Inl e \<Rightarrow> Inl e
      | Inr (components, component_sizes) \<Rightarrow>
          let vertex_ids = concat (map vs_id components);
              vertex_sorter = np_argsort ev (map int vertex_ids)
          in case bbox_fun arrange_boxes of
               Inl e \<Rightarrow> Inl e
             | Inr f \<Rightarrow>
                 (case f ev component_sizes pad_x pad_y of
                    Inl e \<Rightarrow> Inl e
                  | Inr bboxes \<Rightarrow>
                      (case layout_all ev (zip components bboxes) component_layout of
                         Inl e \<Rightarrow> Inl e
                       | Inr component_layouts \<Rightarrow>
                           if component_layouts = []
                             then Inl (ValueError ''need at least one array to concatenate'')
                           else np_take (concat component_layouts) vertex_sorter)))"

subsection \<open>Notions of the specification\<close>

text \<open>Two boxes overlap when their interiors have a point in common.\<close>

definition overlap :: "bbox \<Rightarrow> bbox \<Rightarrow> bool" where
  "overlap a b =
     (case a of (x1, y1, w1, h1) \<Rightarrow> case b of (x2, y2, w2, h2) \<Rightarrow>
        x1 < x2 + w2 \<and> x2 < x1 + w1 \<and> y1 < y2 + h2 \<and> y2 < y1 + h1)"

text \<open>The extent of an axis as the specification words it: \<open>max - min\<close> of the raw
  coordinates, and 1 when \<open>min\<close> equals \<open>max\<close>.\<close>

definition extent :: "real list \<Rightarrow> real" where
  "extent xs = (if Min (set xs) = Max (set xs) then 1 else Max (set xs) - Min (set xs))"

text \<open>The components of a bounding box.\<close>

definition box_x :: "bbox \<Rightarrow> real" where "box_x b = fst b"
definition box_y :: "bbox \<Rightarrow> real" where "box_y b = fst (snd b)"
definition box_width :: "bbox \<Rightarrow> real" where "box_width b = fst (snd (snd b))"
definition box_height :: "bbox \<Rightarrow> real" where "box_height b = snd (snd (snd b))"

text \<open>The connectivity of a stored distance code \<open>v\<close> as the specification words it.\<close>

definition connectivity :: "real \<Rightarrow> real \<Rightarrow> real" where
  "connectivity max_value v = (max_value - (v - 1)) / max_value"

text \<open>The rows after the conversion: every value converted, the entries that became 0 removed.\<close>

definition converted_rows :: "real \<Rightarrow> (nat \<times> real) list list \<Rightarrow> (nat \<times> real) list list" where
  "converted_rows max_value rs =
     map (\<lambda>row. filter (\<lambda>(j, c). c \<noteq> 0) (map (\<lambda>(j, v). (j, connectivity max_value v)) row)) rs"

text \<open>A real number is a value of a dtype: any for floats, an integer of the range for
  an integer dtype.\<close>

definition is_value :: "dtype \<Rightarrow> real \<Rightarrow> bool" where
  "is_value dt x = (dt = Float \<or> (x = of_int \<lfloor>x\<rfloor> \<and> representable dt \<lfloor>x\<rfloor>))"

text \<open>The two subtractions of the conversion give, for the stored value \<open>v\<close>, the exact
  results \<open>v - 1\<close> and \<open>max_value - (v - 1)\<close>: nothing wraps around.\<close>

definition exact_for :: "dtype \<Rightarrow> py_number \<Rightarrow> real \<Rightarrow> bool" where
  "exact_for dt max_value v =
     (wrap dt (v - 1) = v - 1 \<and>
      (case max_value of
         PyFloat m \<Rightarrow> True
       | PyInt k \<Rightarrow> wrap dt (of_int k - (v - 1)) = of_int k - (v - 1)))"

text \<open>A Python number the dtype accepts as an operand: a float always, an int when the
  dtype can represent it.\<close>

definition accepted :: "dtype \<Rightarrow> py_number \<Rightarrow> bool" where
  "accepted dt max_value = (case max_value of PyFloat m \<Rightarrow> True | PyInt k \<Rightarrow> representable dt k)"

text \<open>The message of the format error.\<close>

definition format_error :: error where
  "format_error = ValueError ''Distance matrix must be in CSR format.''"

subsection \<open>Example matrices\<close>

text \<open>The 4 by 4 distance matrix of the specification's scenario: three edges with the
  stored values 1, 2 and 3, stored symmetrically.\<close>

definition distances_3 :: spmatrix where
  "distances_3 = \<lparr>format = CSR, dtype = Float, shape = (4, 4),
      rows = [[(1, 1)], [(0, 1), (2, 2)], [(1, 2), (3, 3)], [(2, 3)]]\<rparr>"

definition distances_2 :: spmatrix where
  "distances_2 = \<lparr>format = CSR, dtype = Float, shape = (3, 3), rows = [[(1, 1), (2, 2)], [(0, 1)], [(0, 2)]]\<rparr>"

text \<open>The same matrix with the dtype uint8.\<close>

definition distances_3_u8 :: spmatrix where
  "distances_3_u8 = \<lparr>format = CSR, dtype = UInt 8, shape = (4, 4),
      rows = [[(1, 1)], [(0, 1), (2, 2)], [(1, 2), (3, 3)], [(2, 3)]]\<rparr>"

text \<open>The matrix \<open>distances_2\<close> with the entries of its first row stored in the order of
  the columns 2, 1: a CSR matrix that is not in canonical format.\<close>

definition distances_unsorted :: spmatrix where
  "distances_unsorted = \<lparr>format = CSR, dtype = Float, shape = (3, 3),
      rows = [[(2, 2), (1, 1)], [(0, 1)], [(0, 2)]]\<rparr>"

text \<open>A matrix in COO format.\<close>

definition distances_coo :: spmatrix where
  "distances_coo = \<lparr>format = COO, dtype = Float, shape = (2, 2), rows = [[(1, 1)], [(0, 1)]]\<rparr>"

subsection \<open>Example environments\<close>

text \<open>An environment without the two optional modules.\<close>

definition no_packers :: env where
  "no_packers = \<lparr>np_argsort = (\<lambda>xs. [0..<length xs]),
                  decompose = (\<lambda>g. [\<lparr>vs_id = [0..<vcount g], c_es = es g\<rparr>]),
                  layout = (\<lambda>c f. map (\<lambda>i. (real i, 0)) (vs_id c)),
                  rpack = None, squarify = None\<rparr>"

subsection \<open>Notions for the packing of rectangles\<close>

text \<open>The integer rectangles \<open>_bbox_rpack\<close> passes to \<open>rpack.pack\<close>: the padded
  footprints, truncated, largest component first.\<close>

definition rpack_dimensions :: "nat list \<Rightarrow> real \<Rightarrow> real \<Rightarrow> (int \<times> int) list" where
  "rpack_dimensions component_sizes pad_x pad_y =
     map (\<lambda>(width, height). (py_int (width + pad_x), py_int (height + pad_y)))
         (rev (map (\<lambda>n. get_bbox_dimensions n 0.8) component_sizes))"

text \<open>The rectangle the packer has placed: a position and a size of \<open>rpack\<close>.\<close>

definition placed :: "int \<times> int \<Rightarrow> int \<times> int \<Rightarrow> bbox" where
  "placed origin d = (real_of_int (fst origin), real_of_int (snd origin),
                      real_of_int (fst d), real_of_int (snd d))"

text \<open>No two boxes of a list overlap.\<close>

definition no_overlaps :: "bbox list \<Rightarrow> bool" where
  "no_overlaps bs = (\<forall>i < length bs. \<forall>j < length bs. i \<noteq> j \<longrightarrow> \<not> overlap (bs ! i) (bs ! j))"

text \<open>
  A packing that \<open>rpack.pack\<close> may return for the rectangles \<open>dims\<close> and the
  enclosing size \<open>outer\<close>: one position per rectangle, every rectangle inside the
  enclosing rectangle, and no two of them overlapping.
\<close>

definition valid_packing :: "int \<times> int \<Rightarrow> (int \<times> int) list \<Rightarrow> (int \<times> int) list \<Rightarrow> bool" where
  "valid_packing outer dims origins =
     (length origins = length dims \<and>
      list_all (\<lambda>(origin, d). 0 \<le> fst origin \<and> 0 \<le> snd origin \<and>
                              fst origin + fst d \<le> fst outer \<and> snd origin + snd d \<le> snd outer)
               (zip origins dims) \<and>
      no_overlaps (map (\<lambda>(origin, d). placed origin d) (zip origins dims)))"

text \<open>
  The enclosing size as \<open>rpack.enclosing_size\<close> computes it: the extent of the placed
  rectangles.
\<close>

definition extent_of :: "(int \<times> int) list \<Rightarrow> (int \<times> int) list \<Rightarrow> int \<times> int" where
  "extent_of dims origins =
     (foldr max (map (\<lambda>((w, h), (x, y)). x + w) (zip dims origins)) 0,
      foldr max (map (\<lambda>((w, h), (x, y)). y + h) (zip dims origins)) 0)"

text \<open>
  The components of the sizes 3, 3 and 8 with the padding 1 give the rectangles 6 by 6,
  3 by 3 and 3 by 3. A packing of least area puts the two small ones on top of each
  other beside the large one, in a rectangle of 9 by 6. An environment in which
  \<open>rpack.pack\<close> returns this packing:
\<close>

definition stacked_env :: env where
  "stacked_env = \<lparr>np_argsort = (\<lambda>xs. [0..<length xs]),
                   decompose = (\<lambda>g. [\<lparr>vs_id = [0..<vcount g], c_es = es g\<rparr>]),
                   layout = (\<lambda>c f. map (\<lambda>i. (real i, 0)) (vs_id c)),
                   rpack = Some \<lparr>pack = (\<lambda>dims. Inr [(0, 0), (6, 0), (6, 3)]),
                                 enclosing_size = extent_of\<rparr>,
                   squarify = None\<rparr>"

subsection \<open>Example graphs\<close>

text \<open>A stable argsort, one of the results \<open>numpy.argsort\<close> may give.\<close>

definition stable_argsort :: "int list \<Rightarrow> nat list" where
  "stable_argsort xs = map snd (sort_key fst (zip xs [0..<length xs]))"

text \<open>
  A graph of four vertices with the edges 0-2 and 2-3, and an environment for it: the
  decomposition finds the component of the vertices 0, 2, 3 first and the component of
  vertex 1 second, and the layout puts the vertices of a component on a line.
\<close>

definition example_env :: env where
  "example_env = \<lparr>np_argsort = stable_argsort,
                   decompose = (\<lambda>g. [\<lparr>vs_id = [0, 2, 3], c_es = [(0, 1), (1, 2)]\<rparr>,
                                      \<lparr>vs_id = [1], c_es = []\<rparr>]),
                   layout = (\<lambda>c f. map (\<lambda>i. (real i, 0)) [0..<length (vs_id c)]),
                   rpack = None, squarify = None\<rparr>"

definition example_graph :: graph where
  "example_graph = \<lparr>vcount = 4, es = [(0, 2), (2, 3)], weight = [1, 1]\<rparr>"

text \<open>
  Eighteen vertices without an edge, each a component of its own, and an environment in
  which \<open>numpy.argsort\<close> answers with a permutation that sorts eighteen equal keys
  without keeping their order. The default sort kind of \<open>numpy.argsort\<close> is quicksort,
  which numpy documents as not stable.
\<close>

definition unstable_env :: env where
  "unstable_env = \<lparr>np_argsort = (\<lambda>xs. [0, 15, 14, 13, 12, 11, 10, 9, 8, 7, 6, 5, 4, 3, 2, 1, 16, 17]),
                    decompose = (\<lambda>g. map (\<lambda>i. \<lparr>vs_id = [i], c_es = []\<rparr>) [0..<vcount g]),
                    layout = (\<lambda>c f. map (\<lambda>i. (real i, 0)) [0..<length (vs_id c)]),
                    rpack = None, squarify = None\<rparr>"

definition isolated_18 :: graph where
  "isolated_18 = \<lparr>vcount = 18, es = [], weight = []\<rparr>"

section \<open>Properties\<close>

subsection \<open>Reductions\<close>

lemma foldl_min_Min: "foldl min (a::real) xs = Min (insert a (set xs))"
proof (induction xs arbitrary: a)
  case Nil
  show ?case by simp
next
  case (Cons x xs)
  have "Min (insert (min a x) (set xs)) = Min (insert a (insert x (set xs)))"
    by (cases "set xs = {}") (simp_all add: min.assoc)
  with Cons show ?case by simp
qed

lemma foldl_max_Max: "foldl max (a::real) xs = Max (insert a (set xs))"
proof (induction xs arbitrary: a)
  case Nil
  show ?case by simp
next
  case (Cons x xs)
  have "Max (insert (max a x) (set xs)) = Max (insert a (insert x (set xs)))"
    by (cases "set xs = {}") (simp_all add: max.assoc)
  with Cons show ?case by simp
qed

lemma np_min_Min: "xs \<noteq> [] \<Longrightarrow> np_min xs = Min (set xs)"
  by (cases xs) (simp_all add: np_min_def foldl_min_Min)

lemma np_max_Max: "xs \<noteq> [] \<Longrightarrow> np_max xs = Max (set xs)"
  by (cases xs) (simp_all add: np_max_def foldl_max_Max)

subsection \<open>Rescaling a component into its box\<close>

lemma extent_nonzero: "extent xs \<noteq> 0"
  by (simp add: extent_def)

text \<open>
  C8. For a coordinate array with at least one row and any bounding box, \<open>_rescale_layout\<close>
  returns, for each axis on its own, \<open>(old - min) / extent * bbox_extent + bbox_origin\<close>,
  where \<open>extent\<close> is \<open>max - min\<close> of the raw coordinates of the axis, and 1 when
  \<open>min = max\<close>. The extent is never 0, so the branch of a division by zero is not taken.
\<close>

theorem rescale_layout_affine:
  assumes "coords \<noteq> []"
  shows "extent (map fst coords) \<noteq> 0 \<and> extent (map snd coords) \<noteq> 0 \<and>
         rescale_layout coords (new_min_x, new_min_y, new_delta_x, new_delta_y) =
           Inr (map (\<lambda>(x, y).
                  ((x - Min (set (map fst coords))) / extent (map fst coords) * new_delta_x + new_min_x,
                   (y - Min (set (map snd coords))) / extent (map snd coords) * new_delta_y + new_min_y))
                coords)"
proof -
  from assms have ne: "map fst coords \<noteq> []" "map snd coords \<noteq> []" by simp_all
  have dx: "(if \<not> np_min (map fst coords) = np_max (map fst coords)
             then np_max (map fst coords) - np_min (map fst coords) else 1) = extent (map fst coords)"
    using ne by (simp add: extent_def np_min_Min np_max_Max)
  have dy: "(if \<not> np_min (map snd coords) = np_max (map snd coords)
             then np_max (map snd coords) - np_min (map snd coords) else 1) = extent (map snd coords)"
    using ne by (simp add: extent_def np_min_Min np_max_Max)
  have "rescale_layout coords (new_min_x, new_min_y, new_delta_x, new_delta_y) =
          Inr (map (\<lambda>(x, y).
                  ((x - np_min (map fst coords)) / extent (map fst coords) * new_delta_x + new_min_x,
                   (y - np_min (map snd coords)) / extent (map snd coords) * new_delta_y + new_min_y))
                coords)"
    unfolding rescale_layout_def Let_def dx dy using assms by (simp add: extent_nonzero)
  then show ?thesis
    using ne by (simp add: extent_nonzero np_min_Min)
qed

theorem rescale_layout_affine_witness:
  "[(0, 0), (2, 0)] \<noteq> ([] :: (real \<times> real) list) \<and>
   rescale_layout [(0, 0), (2, 0)] (10, 20, 4, 6) = Inr [(10, 20), (14, 20)]"
  using rescale_layout_affine [of "[(0, 0), (2, 0)]" 10 20 4 6]
  by (simp add: extent_def)

subsection \<open>The rows of \<open>_bbox_sorted\<close>\<close>

lemma powr_08_power: "0 < (x::real) \<Longrightarrow> (x powr 0.8) ^ 5 = x ^ 4"
proof -
  assume x: "0 < x"
  then have "(x powr 0.8) ^ 5 = x powr (of_nat 5 * 0.8)"
    by (intro powr_power) simp
  also have "of_nat 5 * (0.8::real) = of_nat 4" by simp
  also have "x powr (of_nat 4) = x ^ 4" using x by (rule powr_realpow)
  finally show ?thesis .
qed

lemma powr_08_bounds:
  fixes x lo hi :: real
  assumes x: "0 < x" and lo: "lo ^ 5 \<le> x ^ 4" and hi: "x ^ 4 < hi ^ 5" and "0 \<le> lo" "0 \<le> hi"
  shows "lo \<le> x powr 0.8 \<and> x powr 0.8 < hi"
proof -
  have y: "0 \<le> x powr 0.8" by simp
  from lo powr_08_power [OF x] have "lo ^ 5 \<le> (x powr 0.8) ^ 5" by simp
  then have "lo ^ Suc 4 \<le> (x powr 0.8) ^ Suc 4" by simp
  then have "lo \<le> x powr 0.8" using y by (rule power_le_imp_le_base)
  moreover from hi powr_08_power [OF x] have "(x powr 0.8) ^ 5 < hi ^ 5" by simp
  then have "x powr 0.8 < hi" using \<open>0 \<le> hi\<close> by (rule power_less_imp_less_base)
  ultimately show ?thesis by simp
qed

lemma bounds_2: "1 < (2::real) powr 0.8"
proof -
  have "(11/10) \<le> (2::real) powr 0.8 \<and> (2::real) powr 0.8 < 2"
  proof (rule powr_08_bounds)
    show "(0::real) < 2" "(11/10 :: real) ^ 5 \<le> 2 ^ 4" "(2::real) ^ 4 < 2 ^ 5" "(0::real) \<le> 11/10" "(0::real) \<le> 2"
      by (simp_all add: power_divide)
  qed
  then show ?thesis by linarith
qed

lemmas box_simps = box_x_def box_y_def box_width_def box_height_def

lemma bbox_sorted_loop_length: "length (bbox_sorted_loop px py ns x y c) = length ns"
  by (induction ns arbitrary: x y c) (simp_all add: Let_def get_bbox_dimensions_def)

lemma bbox_sorted_loop_Cons:
  "bbox_sorted_loop px py (n # ns) x y c =
     (if n = c then x else 0, if n = c then y else y + real n powr 0.8 + py, real n powr 0.8, real n powr 0.8)
       # bbox_sorted_loop px py ns ((if n = c then x else 0) + real n powr 0.8 + px)
            (if n = c then y else y + real n powr 0.8 + py) n"
  by (simp add: Let_def get_bbox_dimensions_def)

lemma bbox_sorted_loop_dims:
  "i < length ns \<Longrightarrow>
     box_width (bbox_sorted_loop px py ns x y c ! i) = real (ns ! i) powr 0.8 \<and>
     box_height (bbox_sorted_loop px py ns x y c ! i) = real (ns ! i) powr 0.8"
proof (induction ns arbitrary: x y c i)
  case Nil
  then show ?case by simp
next
  case (Cons n ns)
  show ?case
  proof (cases i)
    case 0
    then show ?thesis unfolding bbox_sorted_loop_Cons by (simp add: box_simps)
  next
    case (Suc k)
    with Cons.prems have "k < length ns" by simp
    from Cons.IH [OF this] show ?thesis
      unfolding bbox_sorted_loop_Cons using Suc by simp
  qed
qed

lemma bbox_sorted_loop_first:
  "ns \<noteq> [] \<Longrightarrow>
     box_x (bbox_sorted_loop px py ns x y c ! 0) = (if ns ! 0 = c then x else 0) \<and>
     box_y (bbox_sorted_loop px py ns x y c ! 0) =
       (if ns ! 0 = c then y else y + real (ns ! 0) powr 0.8 + py)"
  by (cases ns) (simp_all add: Let_def get_bbox_dimensions_def box_simps)

lemma bbox_sorted_loop_step:
  "Suc i < length ns \<Longrightarrow>
     (let b = bbox_sorted_loop px py ns x y c ! i;
          b' = bbox_sorted_loop px py ns x y c ! Suc i
      in if ns ! Suc i = ns ! i
           then box_x b' = box_x b + box_width b + px \<and> box_y b' = box_y b
           else box_x b' = 0 \<and> box_y b' = box_y b + box_height b' + py)"
proof (induction ns arbitrary: x y c i)
  case Nil
  then show ?case by simp
next
  case (Cons n ns)
  show ?case
  proof (cases i)
    case 0
    with Cons.prems obtain m ms where ns: "ns = m # ms" by (cases ns) auto
    show ?thesis
      unfolding ns bbox_sorted_loop_Cons using 0 by (simp add: box_simps Let_def)
  next
    case (Suc k)
    with Cons.prems have "Suc k < length ns" by simp
    from Cons.IH [OF this] show ?thesis
      unfolding bbox_sorted_loop_Cons using Suc by simp
  qed
qed

text \<open>
  C6, as the specification states it, fails in its last part. For the sizes 1 and 2 with
  the padding 1, the row of the first box has the height 1, so the second row would
  begin at \<open>y = 0 + 1 + 1\<close>; \<open>_bbox_sorted\<close> puts the second box at
  \<open>y = 2 ** 0.8 + 1\<close>: it adds the height of the box that opens the new row.
\<close>

theorem bbox_sorted_row_break:
  "bbox_sorted [1, 2] 1 1 = [(0, 0, 1, 1), (0, 2 powr 0.8 + 1, 2 powr 0.8, 2 powr 0.8)] \<and>
   box_y (bbox_sorted [1, 2] 1 1 ! 1) \<noteq>
     box_y (bbox_sorted [1, 2] 1 1 ! 0) + box_height (bbox_sorted [1, 2] 1 1 ! 0) + 1"
proof -
  have b: "bbox_sorted [1, 2] 1 1 = [(0, 0, 1, 1), (0, 2 powr 0.8 + 1, 2 powr 0.8, 2 powr 0.8)]"
    by (simp add: bbox_sorted_def get_bbox_dimensions_def Let_def)
  have "(2::real) powr 0.8 + 1 \<noteq> 0 + 1 + 1" using bounds_2 by linarith
  then have "box_y ([(0, 0, 1, 1), (0, 2 powr 0.8 + 1, 2 powr 0.8, 2 powr 0.8)] ! 1) \<noteq>
     box_y ([(0, 0, 1, 1), (0, 2 powr 0.8 + 1, 2 powr 0.8, 2 powr 0.8)] ! 0)
       + box_height ([(0, 0, 1, 1), (0, 2 powr 0.8 + 1, 2 powr 0.8 :: real, 2 powr 0.8 :: real)] ! 0) + 1"
    by (simp add: box_simps)
  with b show ?thesis by simp
qed

text \<open>
  C6, amended. For every sequence of component sizes, \<open>_bbox_sorted\<close> returns one box per
  component, of width and height \<open>n ** 0.8\<close>. A component of the same size as the one
  before it is placed in the same row, \<open>width + pad_x\<close> to the right of it; a component
  of another size starts a new row: \<open>x\<close> is 0 again, and \<open>y\<close> grows by the height of
  the box that opens the new row, not by the height of the row before it, plus \<open>pad_y\<close>.
  The first component is compared with the initial \<open>current_n = 1\<close>: it is placed at
  \<open>(0, 0)\<close> when its size is 1, and at \<open>x = 0\<close>, \<open>y = n ** 0.8 + pad_y\<close> otherwise.
\<close>

theorem bbox_sorted_rows:
  "length (bbox_sorted sizes pad_x pad_y) = length sizes \<and>
   (\<forall>i < length sizes.
      box_width (bbox_sorted sizes pad_x pad_y ! i) = real (sizes ! i) powr 0.8 \<and>
      box_height (bbox_sorted sizes pad_x pad_y ! i) = real (sizes ! i) powr 0.8) \<and>
   (\<forall>i. Suc i < length sizes \<longrightarrow>
      (if sizes ! Suc i = sizes ! i
         then box_x (bbox_sorted sizes pad_x pad_y ! Suc i) =
                box_x (bbox_sorted sizes pad_x pad_y ! i) + box_width (bbox_sorted sizes pad_x pad_y ! i) + pad_x \<and>
              box_y (bbox_sorted sizes pad_x pad_y ! Suc i) = box_y (bbox_sorted sizes pad_x pad_y ! i)
         else box_x (bbox_sorted sizes pad_x pad_y ! Suc i) = 0 \<and>
              box_y (bbox_sorted sizes pad_x pad_y ! Suc i) =
                box_y (bbox_sorted sizes pad_x pad_y ! i)
                  + box_height (bbox_sorted sizes pad_x pad_y ! Suc i) + pad_y)) \<and>
   (sizes \<noteq> [] \<longrightarrow>
      box_x (bbox_sorted sizes pad_x pad_y ! 0) = 0 \<and>
      box_y (bbox_sorted sizes pad_x pad_y ! 0) =
        (if sizes ! 0 = 1 then 0 else real (sizes ! 0) powr 0.8 + pad_y))"
proof (intro conjI allI impI)
  show "length (bbox_sorted sizes pad_x pad_y) = length sizes"
    by (simp add: bbox_sorted_def bbox_sorted_loop_length)
next
  assume "sizes \<noteq> []"
  from bbox_sorted_loop_first [OF this, of pad_x pad_y 0 0 1]
  show "box_x (bbox_sorted sizes pad_x pad_y ! 0) = 0"
    and "box_y (bbox_sorted sizes pad_x pad_y ! 0) =
        (if sizes ! 0 = 1 then 0 else real (sizes ! 0) powr 0.8 + pad_y)"
    by (simp_all add: bbox_sorted_def)
next
  fix i assume "i < length sizes"
  then show "box_width (bbox_sorted sizes pad_x pad_y ! i) = real (sizes ! i) powr 0.8"
    and "box_height (bbox_sorted sizes pad_x pad_y ! i) = real (sizes ! i) powr 0.8"
    by (simp_all add: bbox_sorted_def bbox_sorted_loop_dims)
next
  fix i assume "Suc i < length sizes"
  from bbox_sorted_loop_step [OF this, of pad_x pad_y 0 0 1]
  show "if sizes ! Suc i = sizes ! i
         then box_x (bbox_sorted sizes pad_x pad_y ! Suc i) =
                box_x (bbox_sorted sizes pad_x pad_y ! i) + box_width (bbox_sorted sizes pad_x pad_y ! i) + pad_x \<and>
              box_y (bbox_sorted sizes pad_x pad_y ! Suc i) = box_y (bbox_sorted sizes pad_x pad_y ! i)
         else box_x (bbox_sorted sizes pad_x pad_y ! Suc i) = 0 \<and>
              box_y (bbox_sorted sizes pad_x pad_y ! Suc i) =
                box_y (bbox_sorted sizes pad_x pad_y ! i)
                  + box_height (bbox_sorted sizes pad_x pad_y ! Suc i) + pad_y"
    by (simp add: bbox_sorted_def Let_def)
qed

theorem bbox_sorted_rows_witness:
  "bbox_sorted [1, 1, 2] 1 1 =
     [(0, 0, 1, 1), (2, 0, 1, 1), (0, 2 powr 0.8 + 1, 2 powr 0.8, 2 powr 0.8)] \<and>
   box_x (bbox_sorted [1, 1, 2] 1 1 ! 1) = box_x (bbox_sorted [1, 1, 2] 1 1 ! 0) + 1 + 1 \<and>
   box_y (bbox_sorted [1, 1, 2] 1 1 ! 2) = box_y (bbox_sorted [1, 1, 2] 1 1 ! 1) + 2 powr 0.8 + 1"
proof -
  note r = bbox_sorted_rows [of "[1, 1, 2]" 1 1]
  note dims = r [THEN conjunct2, THEN conjunct1, rule_format]
  note steps = r [THEN conjunct2, THEN conjunct2, THEN conjunct1, rule_format]
  from dims [of 0] have w0: "box_width (bbox_sorted [1, 1, 2] 1 1 ! 0) = 1" by simp
  from dims [of 2] have h2: "box_height (bbox_sorted [1, 1, 2] 1 1 ! 2) = 2 powr 0.8" by simp
  from steps [of 0] w0
  have b1: "box_x (bbox_sorted [1, 1, 2] 1 1 ! 1) = box_x (bbox_sorted [1, 1, 2] 1 1 ! 0) + 1 + 1"
    by simp
  from steps [of 1] h2
  have b2: "box_y (bbox_sorted [1, 1, 2] 1 1 ! 2) = box_y (bbox_sorted [1, 1, 2] 1 1 ! 1) + 2 powr 0.8 + 1"
    by (simp add: numeral_2_eq_2)
  have e: "bbox_sorted [1, 1, 2] 1 1 =
     [(0, 0, 1, 1), (2, 0, 1, 1), (0, 2 powr 0.8 + 1, 2 powr 0.8, 2 powr 0.8)]"
    by (simp add: bbox_sorted_def get_bbox_dimensions_def Let_def)
  from e b1 b2 show ?thesis by blast
qed

subsection \<open>The conversion of distances to connectivities\<close>

lemma set_rows_data_map:
  "set_rows_data rs (map f (concat (map (map snd) rs)) @ rest) = map (map (\<lambda>(j, v). (j, f v))) rs"
proof (induction rs)
  case Nil
  show ?case by simp
next
  case (Cons r rs)
  have "zip (map fst r) (map f (map snd r)) = map (\<lambda>(j, v). (j, f v)) r"
    by (induction r) auto
  with Cons show ?case by simp
qed

lemma set_data_map:
  "set_data M (map f (data M)) = M\<lparr>dtype := Float, rows := map (map (\<lambda>(j, v). (j, f v))) (rows M)\<rparr>"
  using set_rows_data_map [of "rows M" f "[]"] by (simp add: set_data_def data_def)

lemma convert_with_exact:
  assumes sub: "subtract_from (dtype (s ! r)) mv (map (\<lambda>v. wrap (dtype (s ! r)) (v - 1)) (data (s ! r)))
                  = Inr (map (\<lambda>v. scalar_value mv - (v - 1)) (data (s ! r)))"
    and nz: "\<not> (scalar_value mv = 0 \<and> data (s ! r) \<noteq> [])"
  shows "convert_with s r mv =
           Inr (length s,
                s @ [(s ! r)\<lparr>dtype := Float, rows := converted_rows (scalar_value mv) (rows (s ! r))\<rparr>])"
proof -
  have f: "(\<lambda>v. (scalar_value mv - (v - 1)) / scalar_value mv) = connectivity (scalar_value mv)"
    by (rule ext) (simp add: connectivity_def)
  have upd: "set_data (s ! r) (map (\<lambda>x. (scalar_value mv - (x - 1)) / scalar_value mv) (data (s ! r)))
          = (s ! r)\<lparr>dtype := Float,
                    rows := map (map (\<lambda>(j, v). (j, connectivity (scalar_value mv) v))) (rows (s ! r))\<rparr>"
    unfolding f by (rule set_data_map)
  show ?thesis
    using nz
    by (simp add: convert_with_def copy_sp_def alloc_def Let_def sub upd eliminate_zeros_def
        converted_rows_def comp_def)
qed

lemma convert_with_fresh:
  assumes "convert_with s r mv = Inr (r', s')"
  shows "r' = length s \<and> take (length s) s' = s \<and> length s' = Suc (length s)"
  using assms
  by (auto simp: convert_with_def copy_sp_def alloc_def Let_def eliminate_zeros_def
      split: sum.splits if_splits)

lemma distance_to_connectivity_not_CSR:
  "format (s ! r) \<noteq> CSR \<Longrightarrow>
     distance_to_connectivity s r mv = Inl (ValueError ''Distance matrix must be in CSR format.'')"
  by (simp add: distance_to_connectivity_def)

lemma distance_to_connectivity_Some:
  "format (s ! r) = CSR \<Longrightarrow> distance_to_connectivity s r (Some p) = convert_with s r (Python p)"
  by (simp add: distance_to_connectivity_def)

lemma distance_to_connectivity_None:
  "format (s ! r) = CSR \<Longrightarrow>
     distance_to_connectivity s r None =
       (case sp_max s r of Inl e \<Rightarrow> Inl e | Inr (m, s0) \<Rightarrow> convert_with s0 r (Numpy m))"
  by (simp add: distance_to_connectivity_def)

lemma wrap_value: "is_value dt x \<Longrightarrow> wrap dt x = x"
proof (cases dt)
  case Float
  then show ?thesis by simp
next
  case (SInt w)
  assume "is_value dt x"
  with SInt have x: "x = of_int \<lfloor>x\<rfloor>" and lo: "- (2 ^ w div 2) \<le> \<lfloor>x\<rfloor>" and hi: "\<lfloor>x\<rfloor> < 2 ^ w div 2"
    by (simp_all add: is_value_def)
  have "(2 ^ w div 2) * 2 \<le> (2 ^ w :: int)" by simp
  with lo hi have "0 \<le> \<lfloor>x\<rfloor> + 2 ^ w div 2" "\<lfloor>x\<rfloor> + 2 ^ w div 2 < 2 ^ w" by linarith+
  then have "(\<lfloor>x\<rfloor> + 2 ^ w div 2) mod 2 ^ w = \<lfloor>x\<rfloor> + 2 ^ w div 2" by simp
  with SInt x show ?thesis by simp
next
  case (UInt w)
  assume "is_value dt x"
  with UInt have x: "x = of_int \<lfloor>x\<rfloor>" and "0 \<le> \<lfloor>x\<rfloor>" "\<lfloor>x\<rfloor> < 2 ^ w"
    by (simp_all add: is_value_def)
  then have "\<lfloor>x\<rfloor> mod 2 ^ w = \<lfloor>x\<rfloor>" by simp
  with UInt x show ?thesis by simp
qed

lemma subtract_from_exact:
  assumes "accepted dt p" and "\<forall>v \<in> set vs. exact_for dt p v"
  shows "subtract_from dt (Python p) (map (\<lambda>v. wrap dt (v - 1)) vs)
           = Inr (map (\<lambda>v. py_value p - (v - 1)) vs)"
proof (cases p)
  case (PyInt k)
  from assms(2) PyInt have "\<forall>v \<in> set vs. wrap dt (of_int k - wrap dt (v - 1)) = of_int k - (v - 1)"
    by (simp add: exact_for_def)
  with assms(1) PyInt show ?thesis
    by (simp add: subtract_from_def accepted_def comp_def)
next
  case (PyFloat m)
  from assms(2) PyFloat have "\<forall>v \<in> set vs. m - wrap dt (v - 1) = m - (v - 1)"
    by (simp add: exact_for_def)
  with PyFloat show ?thesis
    by (simp add: subtract_from_def comp_def)
qed

text \<open>
  C2, as the specification states it, fails: with \<open>max_value = 3.0\<close> the stored value 5
  of a float matrix becomes \<open>(3 - 4) / 3 = - 1/3\<close>, and the entry stays in the result,
  since \<open>eliminate_zeros\<close> removes the entries equal to 0 only.
\<close>

theorem distance_to_connectivity_negative_kept:
  "distance_to_connectivity
     [\<lparr>format = CSR, dtype = Float, shape = (2, 2), rows = [[(1, 5)], [(0, 5)]]\<rparr>] 0 (Some (PyFloat 3)) =
     Inr (1, [\<lparr>format = CSR, dtype = Float, shape = (2, 2), rows = [[(1, 5)], [(0, 5)]]\<rparr>,
              \<lparr>format = CSR, dtype = Float, shape = (2, 2), rows = [[(1, - 1/3)], [(0, - 1/3)]]\<rparr>])"
  by (simp add: distance_to_connectivity_Some convert_with_exact subtract_from_def data_def
      converted_rows_def connectivity_def)

text \<open>
  In an unsigned matrix with an int \<open>max_value\<close> the same entry wraps around instead:
  \<open>3 - 4\<close> is 255 in uint8, and the result holds \<open>255 / 3 = 85\<close>.
\<close>

lemma floor_minus_one: "\<lfloor>- 1 :: real\<rfloor> = - 1"
  by (simp add: floor_eq_iff)

lemma distance_to_connectivity_wraps:
  "distance_to_connectivity
     [\<lparr>format = CSR, dtype = UInt 8, shape = (2, 2), rows = [[(1, 5)], [(0, 5)]]\<rparr>] 0 (Some (PyInt 3)) =
     Inr (1, [\<lparr>format = CSR, dtype = UInt 8, shape = (2, 2), rows = [[(1, 5)], [(0, 5)]]\<rparr>,
              \<lparr>format = CSR, dtype = Float, shape = (2, 2), rows = [[(1, 85)], [(0, 85)]]\<rparr>])"
  by (simp add: distance_to_connectivity_Some convert_with_def copy_sp_def alloc_def Let_def
      subtract_from_def data_def set_data_def eliminate_zeros_def floor_minus_one)

text \<open>
  C2, amended. For every CSR distance matrix and every explicit \<open>max_value\<close> other than 0
  that the dtype of the matrix accepts, provided that for no stored value \<open>v\<close> one of
  the subtractions \<open>v - 1\<close> and \<open>max_value - (v - 1)\<close> wraps around in the dtype of the
  matrix (none does in a float matrix): the result is a new float matrix of the same
  format and shape whose stored entries are the entries of the input, in their place and
  order, each value \<open>v\<close> replaced by \<open>c = (max_value - (v - 1)) / max_value\<close>, without
  the entries whose \<open>c\<close> is exactly 0. Entries with \<open>c < 0\<close> are kept.
\<close>

theorem distance_to_connectivity_entries:
  assumes "format (s ! distances) = CSR"
    and "py_value max_value \<noteq> 0"
    and "accepted (dtype (s ! distances)) max_value"
    and "\<forall>v \<in> set (data (s ! distances)). exact_for (dtype (s ! distances)) max_value v"
  shows "distance_to_connectivity s distances (Some max_value) =
           Inr (length s,
                s @ [(s ! distances)\<lparr>dtype := Float, rows :=
                       map (\<lambda>row. filter (\<lambda>(j, c). c \<noteq> 0)
                                     (map (\<lambda>(j, v). (j, connectivity (py_value max_value) v)) row))
                           (rows (s ! distances))\<rparr>])"
proof -
  have "convert_with s distances (Python max_value) =
          Inr (length s,
               s @ [(s ! distances)\<lparr>dtype := Float,
                      rows := converted_rows (scalar_value (Python max_value)) (rows (s ! distances))\<rparr>])"
    using subtract_from_exact [OF assms(3,4)] assms(2)
    by (intro convert_with_exact) simp_all
  with assms(1) show ?thesis
    by (simp add: distance_to_connectivity_Some converted_rows_def)
qed

theorem distance_to_connectivity_entries_witness:
  "distance_to_connectivity [distances_3_u8] 0 (Some (PyInt 2)) =
     Inr (1, [distances_3_u8,
              \<lparr>format = CSR, dtype = Float, shape = (4, 4),
               rows = [[(1, 1)], [(0, 1), (2, 1/2)], [(1, 1/2)], []]\<rparr>])"
proof -
  have f: "format ([distances_3_u8] ! 0) = CSR" by (simp add: distances_3_u8_def)
  have n: "py_value (PyInt 2) \<noteq> 0" by simp
  have a: "accepted (dtype ([distances_3_u8] ! 0)) (PyInt 2)"
    by (simp add: distances_3_u8_def accepted_def)
  have e: "\<forall>v \<in> set (data ([distances_3_u8] ! 0)). exact_for (dtype ([distances_3_u8] ! 0)) (PyInt 2) v"
    by (simp add: distances_3_u8_def data_def exact_for_def)
  from distance_to_connectivity_entries [OF f n a e] show ?thesis
    by (simp add: distances_3_u8_def connectivity_def)
qed

lemma summed_fields [simp]:
  "format (summed M) = format M" "dtype (summed M) = dtype M" "shape (summed M) = shape M"
  by (simp_all add: summed_def)

lemma sum_duplicates_row_Nil: "sum_duplicates_row dt r = [] \<longleftrightarrow> r = []"
proof -
  have "sort (remdups (map fst r)) = [] \<longleftrightarrow> r = []"
    by (metis length_0_conv length_sort remdups_eq_nil_iff map_is_Nil_conv)
  then show ?thesis by (simp add: sum_duplicates_row_def)
qed

lemma data_summed_Nil: "data (summed M) = [] \<longleftrightarrow> data M = []"
  by (auto simp: summed_def data_def sum_duplicates_row_Nil)

lemma sp_max_result:
  assumes r: "r < length s" and sh: "fst (shape (s ! r)) \<noteq> 0" "snd (shape (s ! r)) \<noteq> 0"
  shows "\<exists>m. sp_max s r = Inr (m, s[r := summed (s ! r)]) \<and>
             (\<forall>v \<in> set (data (summed (s ! r))). v \<le> m) \<and>
             (m = 0 \<or> m \<in> set (data (summed (s ! r))))"
proof (cases "data (s ! r) = []")
  case True
  then have e: "data (summed (s ! r)) = []" by (simp add: data_summed_Nil)
  have "has_canonical_format (s ! r)"
    using True by (auto simp: has_canonical_format_def data_def list_all_iff)
  then have "s[r := summed (s ! r)] = s" by (simp add: summed_def)
  with True e sh show ?thesis by (simp add: sp_max_def)
next
  case False
  let ?M = "summed (s ! r)"
  from False have ne: "data ?M \<noteq> []" by (simp add: data_summed_Nil)
  have upd: "sum_duplicates s r ! r = ?M" using r by (simp add: sum_duplicates_def)
  let ?m = "np_max (data ?M)"
  from ne have mx: "?m = Max (set (data ?M))" by (rule np_max_Max)
  then have le: "\<forall>v \<in> set (data ?M). v \<le> ?m" by simp
  from mx ne have mem: "?m \<in> set (data ?M)" by (metis Max_in List.finite_set set_empty)
  show ?thesis
  proof (cases "length (data ?M) \<noteq> fst (shape ?M) * snd (shape ?M)")
    case True
    have res: "sp_max s r = Inr (max 0 ?m, s[r := ?M])"
      using False sh True upd by (simp add: sp_max_def Let_def sum_duplicates_def)
    from le have "\<forall>v \<in> set (data ?M). v \<le> max 0 ?m" by fastforce
    moreover from mem have "max 0 ?m = 0 \<or> max 0 ?m \<in> set (data ?M)"
      by (simp add: max_def)
    ultimately show ?thesis using res by blast
  next
    case full: False
    have res: "sp_max s r = Inr (?m, s[r := ?M])"
      using False sh full upd by (simp add: sp_max_def Let_def sum_duplicates_def)
    with le mem show ?thesis by blast
  qed
qed

lemma representable_between:
  assumes "representable dt hi" and "0 \<le> k" and "k \<le> hi"
  shows "representable dt k"
proof (cases dt)
  case Float
  then show ?thesis by simp
next
  case (SInt w)
  have "- (2 ^ w div 2) \<le> (0::int)" by simp
  with assms SInt show ?thesis by simp
next
  case (UInt w)
  with assms show ?thesis by simp
qed

lemma is_value_between:
  assumes hi: "is_value dt hi" and x: "is_value dt a" "is_value dt b"
    and rng: "0 \<le> a - b" "a - b \<le> hi"
  shows "is_value dt (a - b)"
proof (cases "dt = Float")
  case True
  then show ?thesis by (simp add: is_value_def)
next
  case False
  with hi x have ia: "a = of_int \<lfloor>a\<rfloor>" and ib: "b = of_int \<lfloor>b\<rfloor>" and ih: "hi = of_int \<lfloor>hi\<rfloor>"
    and rh: "representable dt \<lfloor>hi\<rfloor>"
    by (simp_all add: is_value_def)
  from ia ib have d: "a - b = of_int (\<lfloor>a\<rfloor> - \<lfloor>b\<rfloor>)" by simp
  then have fl: "\<lfloor>a - b\<rfloor> = \<lfloor>a\<rfloor> - \<lfloor>b\<rfloor>" by (metis floor_of_int)
  from rng have "0 \<le> \<lfloor>a - b\<rfloor>" "\<lfloor>a - b\<rfloor> \<le> \<lfloor>hi\<rfloor>" by (simp_all add: floor_mono)
  from representable_between [OF rh this] d fl show ?thesis
    by (simp add: is_value_def)
qed

lemma is_value_one: "is_value dt v \<Longrightarrow> 1 \<le> v \<Longrightarrow> is_value dt 1"
proof -
  assume v: "is_value dt v" and ge: "1 \<le> v"
  show ?thesis
  proof (cases "dt = Float")
    case True
    then show ?thesis by (simp add: is_value_def)
  next
    case False
    with v have "representable dt \<lfloor>v\<rfloor>" by (simp add: is_value_def)
    moreover from ge have "1 \<le> \<lfloor>v\<rfloor>" by simp
    ultimately have "representable dt 1" by (intro representable_between [of dt "\<lfloor>v\<rfloor>" 1]) simp_all
    then show ?thesis by (simp add: is_value_def)
  qed
qed

lemma connectivity_range:
  assumes "1 \<le> v" and "v - 1 \<le> m" and "0 < m" and "connectivity m v \<noteq> 0"
  shows "0 < connectivity m v \<and> connectivity m v \<le> 1"
proof -
  from assms(2,3) have "0 \<le> connectivity m v" by (simp add: connectivity_def)
  with assms(4) have "0 < connectivity m v" by simp
  moreover from assms(1,3) have "connectivity m v \<le> 1" by (simp add: connectivity_def)
  ultimately show ?thesis by simp
qed

lemma converted_row_values:
  "snd ` set (filter (\<lambda>(j, c). c \<noteq> 0) (map (\<lambda>(j, v). (j, connectivity m v)) row))
     \<subseteq> {c \<in> connectivity m ` snd ` set row. c \<noteq> 0}"
  by force

lemma data_converted_rows:
  "set (data (M\<lparr>dtype := dt, rows := converted_rows m (rows M)\<rparr>))
     \<subseteq> {c \<in> connectivity m ` set (data M). c \<noteq> 0}"
proof -
  have "set (data (M\<lparr>dtype := dt, rows := converted_rows m (rows M)\<rparr>)) =
          (\<Union>row \<in> set (rows M).
             snd ` set (filter (\<lambda>(j, c). c \<noteq> 0) (map (\<lambda>(j, v). (j, connectivity m v)) row)))"
    by (simp add: data_def converted_rows_def)
  also have "\<dots> \<subseteq> (\<Union>row \<in> set (rows M). {c \<in> connectivity m ` snd ` set row. c \<noteq> 0})"
    by (rule UN_mono [OF subset_refl converted_row_values])
  also have "\<dots> \<subseteq> {c \<in> connectivity m ` set (data M). c \<noteq> 0}"
    by (auto simp: data_def)
  finally show ?thesis .
qed

lemma convert_with_range:
  assumes vals: "\<forall>v \<in> set (data (s ! r)). is_value (dtype (s ! r)) v \<and> 1 \<le> v \<and> v - 1 \<le> scalar_value sc"
    and pos: "0 < scalar_value sc"
    and ok: "case sc of Numpy m \<Rightarrow> is_value (dtype (s ! r)) m | Python p \<Rightarrow> accepted (dtype (s ! r)) p"
  shows "\<exists>s'. convert_with s r sc = Inr (length s, s') \<and> length s' = Suc (length s) \<and>
              (\<forall>c \<in> set (data (s' ! length s)). 0 < c \<and> c \<le> 1)"
proof -
  let ?M = "s ! r" and ?dt = "dtype (s ! r)" and ?m = "scalar_value sc"
  have d: "wrap ?dt (v - 1) = v - 1" and dv: "is_value ?dt (v - 1)" if "v \<in> set (data ?M)" for v
  proof -
    from that vals have v: "is_value ?dt v" "1 \<le> v" by auto
    from is_value_between [OF v(1) v(1) is_value_one [OF v]] v(2)
    show "is_value ?dt (v - 1)" by simp
    then show "wrap ?dt (v - 1) = v - 1" by (rule wrap_value)
  qed
  have num: "wrap ?dt (?m - (v - 1)) = ?m - (v - 1)" if v: "v \<in> set (data ?M)" and m: "is_value ?dt ?m" for v
  proof -
    from v vals have "1 \<le> v" "v - 1 \<le> ?m" by auto
    then have "0 \<le> ?m - (v - 1)" "?m - (v - 1) \<le> ?m" by simp_all
    from is_value_between [OF m m dv [OF v] this] show ?thesis by (rule wrap_value)
  qed
  have sub: "subtract_from ?dt sc (map (\<lambda>v. wrap ?dt (v - 1)) (data ?M))
               = Inr (map (\<lambda>v. ?m - (v - 1)) (data ?M))"
  proof (cases sc)
    case (Numpy m)
    with ok have "is_value ?dt ?m" by simp
    with num d Numpy show ?thesis by (simp add: subtract_from_def comp_def)
  next
    case (Python p)
    show ?thesis
    proof (cases p)
      case (PyFloat x)
      with Python d show ?thesis by (simp add: subtract_from_def comp_def)
    next
      case (PyInt k)
      with Python ok have rep: "representable ?dt k" by (simp add: accepted_def)
      then have "is_value ?dt (of_int k)" by (simp add: is_value_def)
      with Python PyInt have "is_value ?dt ?m" by simp
      with num d Python PyInt rep show ?thesis by (simp add: subtract_from_def comp_def)
    qed
  qed
  from pos have nz: "\<not> (?m = 0 \<and> data ?M \<noteq> [])" by simp
  let ?R = "?M\<lparr>dtype := Float, rows := converted_rows ?m (rows ?M)\<rparr>"
  note res = convert_with_exact [OF sub nz]
  have "\<forall>c \<in> set (data ?R). 0 < c \<and> c \<le> 1"
  proof
    fix c assume "c \<in> set (data ?R)"
    with data_converted_rows [where dt = Float and m = ?m and M = ?M]
    obtain v where v: "v \<in> set (data ?M)" and c: "c = connectivity ?m v" and c0: "c \<noteq> 0" by auto
    from v vals have "1 \<le> v" "v - 1 \<le> ?m" by auto
    from connectivity_range [OF this pos] c c0 show "0 < c \<and> c \<le> 1" by simp
  qed
  with res show ?thesis by simp
qed

text \<open>
  C5, as the specification states it, fails: with the explicit \<open>max_value = 2.0\<close> the
  stored value 4 becomes \<open>- 1/2\<close>, which is retained and is not in \<open>(0, 1]\<close>.
\<close>

theorem distance_to_connectivity_out_of_range:
  "distance_to_connectivity
     [\<lparr>format = CSR, dtype = Float, shape = (2, 2), rows = [[(1, 1)], [(0, 4)]]\<rparr>] 0 (Some (PyFloat 2)) =
     Inr (1, [\<lparr>format = CSR, dtype = Float, shape = (2, 2), rows = [[(1, 1)], [(0, 4)]]\<rparr>,
              \<lparr>format = CSR, dtype = Float, shape = (2, 2), rows = [[(1, 1)], [(0, - 1/2)]]\<rparr>])"
  by (simp add: distance_to_connectivity_Some convert_with_exact subtract_from_def data_def
      converted_rows_def connectivity_def)

text \<open>
  C5, amended. Let the stored values of a CSR distance matrix be values of its dtype and
  at least 1 (the encoding of the distances: \<open>v\<close> stands for the distance \<open>v - 1\<close>).
  The conversion returns, and all values of the result lie in \<open>(0, 1]\<close>, when
  \<open>max_value\<close> is explicit, positive, accepted by the dtype and at least \<open>v - 1\<close> for
  every stored \<open>v\<close> (an entry with \<open>v - 1 = max_value\<close> becomes 0 and is removed), and
  when \<open>max_value\<close> is defaulted for a matrix without a dimension 0; in the defaulted
  case the condition on the stored values is one on the values after \<open>np.max\<close> has
  added up the entries of the same position.
\<close>

theorem distance_to_connectivity_range:
  assumes "distances < length s" and "format (s ! distances) = CSR"
    and "case max_value of
           None \<Rightarrow>
             fst (shape (s ! distances)) \<noteq> 0 \<and> snd (shape (s ! distances)) \<noteq> 0 \<and>
             (\<forall>v \<in> set (data (summed (s ! distances))). is_value (dtype (s ! distances)) v \<and> 1 \<le> v)
         | Some m \<Rightarrow>
             accepted (dtype (s ! distances)) m \<and> 0 < py_value m \<and>
             (\<forall>v \<in> set (data (s ! distances)).
                is_value (dtype (s ! distances)) v \<and> 1 \<le> v \<and> v - 1 \<le> py_value m)"
  shows "\<exists>s'. distance_to_connectivity s distances max_value = Inr (length s, s') \<and>
              (\<forall>c \<in> set (data (s' ! length s)). 0 < c \<and> c \<le> 1)"
proof (cases max_value)
  case (Some p)
  with assms(3) have "\<forall>v \<in> set (data (s ! distances)).
      is_value (dtype (s ! distances)) v \<and> 1 \<le> v \<and> v - 1 \<le> scalar_value (Python p)"
    and "0 < scalar_value (Python p)"
    and "case Python p of Numpy m \<Rightarrow> is_value (dtype (s ! distances)) m
         | Python p \<Rightarrow> accepted (dtype (s ! distances)) p"
    by simp_all
  from convert_with_range [OF this] Some assms(2) show ?thesis
    by (auto simp: distance_to_connectivity_Some)
next
  case None
  let ?M = "summed (s ! distances)" and ?s0 = "s[distances := summed (s ! distances)]"
  from None assms(3) have sh: "fst (shape (s ! distances)) \<noteq> 0" "snd (shape (s ! distances)) \<noteq> 0"
    and vals: "\<forall>v \<in> set (data ?M). is_value (dtype (s ! distances)) v \<and> 1 \<le> v"
    by simp_all
  from sp_max_result [OF assms(1) sh] obtain m where
    mx: "sp_max s distances = Inr (m, ?s0)" and le: "\<forall>v \<in> set (data ?M). v \<le> m"
    and mem: "m = 0 \<or> m \<in> set (data ?M)" by blast
  have at: "?s0 ! distances = ?M" using assms(1) by simp
  show ?thesis
  proof (cases "data ?M = []")
    case True
    have e: "data (?s0 ! distances) = []" using True at by simp
    have "convert_with ?s0 distances (Numpy m) =
            Inr (length ?s0, ?s0 @ [(?s0 ! distances)\<lparr>dtype := Float,
                   rows := converted_rows (scalar_value (Numpy m)) (rows (?s0 ! distances))\<rparr>])"
      by (rule convert_with_exact) (simp_all add: e subtract_from_def)
    moreover have "set (data ((?s0 ! distances)\<lparr>dtype := Float,
                   rows := converted_rows (scalar_value (Numpy m)) (rows (?s0 ! distances))\<rparr>)) = {}"
      using data_converted_rows [where dt = Float and m = "scalar_value (Numpy m)" and M = "?s0 ! distances"] e by simp
    moreover have "(?s0 @ [R]) ! length s = R" for R
      by (metis length_list_update nth_append_length)
    ultimately show ?thesis
      using mx assms(2) None by (simp add: distance_to_connectivity_None)
  next
    case False
    then obtain v0 where v0: "v0 \<in> set (data ?M)" by (cases "data ?M") auto
    with vals le have "1 \<le> v0" "v0 \<le> m" by auto
    then have pos: "0 < m" by simp
    with mem have mm: "m \<in> set (data ?M)" by simp
    with vals have mv: "is_value (dtype (s ! distances)) m" by simp
    have a: "\<forall>v \<in> set (data (?s0 ! distances)).
               is_value (dtype (?s0 ! distances)) v \<and> 1 \<le> v \<and> v - 1 \<le> scalar_value (Numpy m)"
      using vals le at by fastforce
    have b: "0 < scalar_value (Numpy m)" using pos by simp
    have c: "case Numpy m of Numpy m \<Rightarrow> is_value (dtype (?s0 ! distances)) m
             | Python p \<Rightarrow> accepted (dtype (?s0 ! distances)) p"
      using mv at by simp
    from convert_with_range [OF a b c] mx assms(2) None show ?thesis
      by (auto simp: distance_to_connectivity_None)
  qed
qed

theorem distance_to_connectivity_range_witness:
  "distance_to_connectivity [distances_3] 0 (Some (PyFloat 2)) =
     Inr (1, [distances_3,
              \<lparr>format = CSR, dtype = Float, shape = (4, 4),
               rows = [[(1, 1)], [(0, 1), (2, 1/2)], [(1, 1/2)], []]\<rparr>]) \<and>
   distance_to_connectivity [distances_3] 0 None =
     Inr (1, [distances_3,
              \<lparr>format = CSR, dtype = Float, shape = (4, 4),
               rows = [[(1, 1)], [(0, 1), (2, 2/3)], [(1, 2/3), (3, 1/3)], [(2, 1/3)]]\<rparr>])"
proof -
  have l: "(0::nat) < length [distances_3]" by simp
  have f: "format ([distances_3] ! 0) = CSR" by (simp add: distances_3_def)
  have canonical: "summed distances_3 = distances_3"
    by (simp add: summed_def has_canonical_format_def distances_3_def)
  have h: "case Some (PyFloat 2) of
           None \<Rightarrow>
             fst (shape ([distances_3] ! 0)) \<noteq> 0 \<and> snd (shape ([distances_3] ! 0)) \<noteq> 0 \<and>
             (\<forall>v \<in> set (data (summed ([distances_3] ! 0))). is_value (dtype ([distances_3] ! 0)) v \<and> 1 \<le> v)
         | Some m \<Rightarrow>
             accepted (dtype ([distances_3] ! 0)) m \<and> 0 < py_value m \<and>
             (\<forall>v \<in> set (data ([distances_3] ! 0)).
                is_value (dtype ([distances_3] ! 0)) v \<and> 1 \<le> v \<and> v - 1 \<le> py_value m)"
    by (simp add: distances_3_def data_def accepted_def is_value_def)
  have h': "case None :: py_number option of
           None \<Rightarrow>
             fst (shape ([distances_3] ! 0)) \<noteq> 0 \<and> snd (shape ([distances_3] ! 0)) \<noteq> 0 \<and>
             (\<forall>v \<in> set (data (summed ([distances_3] ! 0))). is_value (dtype ([distances_3] ! 0)) v \<and> 1 \<le> v)
         | Some m \<Rightarrow>
             accepted (dtype ([distances_3] ! 0)) m \<and> 0 < py_value m \<and>
             (\<forall>v \<in> set (data ([distances_3] ! 0)).
                is_value (dtype ([distances_3] ! 0)) v \<and> 1 \<le> v \<and> v - 1 \<le> py_value m)"
    by (simp add: canonical) (simp add: distances_3_def data_def is_value_def)
  from distance_to_connectivity_range [OF l f h]
  obtain s' where "distance_to_connectivity [distances_3] 0 (Some (PyFloat 2)) = Inr (length [distances_3], s')"
    by blast
  moreover have "distance_to_connectivity [distances_3] 0 (Some (PyFloat 2)) =
     Inr (1, [distances_3,
              \<lparr>format = CSR, dtype = Float, shape = (4, 4),
               rows = [[(1, 1)], [(0, 1), (2, 1/2)], [(1, 1/2)], []]\<rparr>])"
    by (simp add: distance_to_connectivity_Some convert_with_exact subtract_from_def distances_3_def
        data_def converted_rows_def connectivity_def)
  moreover from distance_to_connectivity_range [OF l f h']
  obtain s'' where "distance_to_connectivity [distances_3] 0 None = Inr (length [distances_3], s'')"
    by blast
  moreover have "distance_to_connectivity [distances_3] 0 None =
     Inr (1, [distances_3,
              \<lparr>format = CSR, dtype = Float, shape = (4, 4),
               rows = [[(1, 1)], [(0, 1), (2, 2/3)], [(1, 2/3), (3, 1/3)], [(2, 1/3)]]\<rparr>])"
  proof -
    have mx: "sp_max [distances_3] 0 = Inr (3, [distances_3])"
      by (simp add: sp_max_def sum_duplicates_def canonical Let_def)
         (simp add: distances_3_def data_def np_max_def)
    have cv: "convert_with [distances_3] 0 (Numpy 3) =
       Inr (1, [distances_3,
                \<lparr>format = CSR, dtype = Float, shape = (4, 4),
                 rows = [[(1, 1)], [(0, 1), (2, 2/3)], [(1, 2/3), (3, 1/3)], [(2, 1/3)]]\<rparr>])"
      by (simp add: convert_with_exact subtract_from_def distances_3_def data_def converted_rows_def
          connectivity_def)
    from f show ?thesis by (simp add: distance_to_connectivity_None mx cv)
  qed
  ultimately show ?thesis by simp
qed

subsection \<open>The input of the conversion\<close>

text \<open>With an explicit \<open>max_value\<close> the conversion works on its copy only: the matrix
  passed in, and every other object, is what it was before the call.\<close>

lemma distance_to_connectivity_frame_explicit:
  assumes "distances < length s"
    and "distance_to_connectivity s distances (Some max_value) = Inr (connectivities, s')"
  shows "s' ! distances = s ! distances \<and> connectivities \<noteq> distances \<and> take (length s) s' = s"
proof -
  from assms(2) have csr: "format (s ! distances) = CSR"
    by (auto simp: distance_to_connectivity_def split: if_splits)
  with assms(2) have "convert_with s distances (Python max_value) = Inr (connectivities, s')"
    by (simp add: distance_to_connectivity_Some)
  from convert_with_fresh [OF this]
  have fresh: "connectivities = length s" and same: "take (length s) s' = s" by simp_all
  from assms(1) have "s' ! distances = take (length s) s' ! distances" by simp
  with same have "s' ! distances = s ! distances" by simp
  with fresh same assms(1) show ?thesis by simp
qed

lemma summed_unsorted: "summed distances_unsorted = distances_2"
  by (simp add: summed_def has_canonical_format_def distances_unsorted_def distances_2_def
      sum_duplicates_row_def)

text \<open>
  C10 does not hold of the code when \<open>max_value\<close> is defaulted. Line 65 calls
  \<open>np.max(distances)\<close> on the matrix passed in, before the copy of line 67 is made, and
  the \<open>max\<close> of a sparse matrix calls \<open>sum_duplicates()\<close> on it, in place. For the
  matrix whose first row is stored in the order of the columns 2, 1, the object passed in
  holds the row in the order 1, 2 when the call returns.
\<close>

theorem distance_to_connectivity_sorts_input:
  "distance_to_connectivity [distances_unsorted] 0 None =
     Inr (1, [distances_2,
              \<lparr>format = CSR, dtype = Float, shape = (3, 3),
               rows = [[(1, 1), (2, 1/2)], [(0, 1)], [(0, 1/2)]]\<rparr>]) \<and>
   [distances_2,
    \<lparr>format = CSR, dtype = Float, shape = (3, 3),
     rows = [[(1, 1), (2, 1/2)], [(0, 1)], [(0, 1/2)]]\<rparr>] ! 0 \<noteq> distances_unsorted"
proof -
  have mx: "sp_max [distances_unsorted] 0 = Inr (2, [distances_2])"
    by (simp add: sp_max_def sum_duplicates_def summed_unsorted Let_def)
       (simp add: distances_unsorted_def distances_2_def data_def np_max_def)
  have cv: "convert_with [distances_2] 0 (Numpy 2) =
     Inr (1, [distances_2,
              \<lparr>format = CSR, dtype = Float, shape = (3, 3),
               rows = [[(1, 1), (2, 1/2)], [(0, 1)], [(0, 1/2)]]\<rparr>])"
    by (simp add: convert_with_exact subtract_from_def distances_2_def data_def converted_rows_def
        connectivity_def)
  have "format ([distances_unsorted] ! 0) = CSR" by (simp add: distances_unsorted_def)
  then have "distance_to_connectivity [distances_unsorted] 0 None =
     Inr (1, [distances_2,
              \<lparr>format = CSR, dtype = Float, shape = (3, 3),
               rows = [[(1, 1), (2, 1/2)], [(0, 1)], [(0, 1/2)]]\<rparr>])"
    by (simp add: distance_to_connectivity_None mx cv)
  moreover have "distances_2 \<noteq> distances_unsorted"
    by (simp add: distances_2_def distances_unsorted_def)
  ultimately show ?thesis by simp
qed

subsection \<open>The format check\<close>

lemma tocsr_format: "tocsr s r = (r1, s1) \<Longrightarrow> format (s1 ! r1) = CSR"
  by (auto simp: tocsr_def alloc_def split: if_splits)

lemma convert_with_error:
  "convert_with s r mv = Inl e \<Longrightarrow> e = OverflowError \<or> e = NonFiniteResult"
  by (auto simp: convert_with_def copy_sp_def alloc_def Let_def subtract_from_def
      split: sum.splits if_splits scalar.splits py_number.splits)

lemma sp_max_error:
  "sp_max s r = Inl e \<Longrightarrow> e = ValueError ''zero-size array to reduction operation''"
  by (auto simp: sp_max_def Let_def split: if_splits)

lemma distance_to_connectivity_error:
  assumes "format (s ! r) = CSR" and "distance_to_connectivity s r mv = Inl e"
  shows "e \<noteq> format_error"
proof (cases mv)
  case None
  show ?thesis
  proof (cases "sp_max s r")
    case (Inl e')
    with assms None have "e = e'" by (simp add: distance_to_connectivity_None)
    with sp_max_error [OF Inl] show ?thesis by (simp add: format_error_def)
  next
    case (Inr p)
    obtain m s0 where "p = (m, s0)" by (cases p)
    with assms None Inr have "convert_with s0 r (Numpy m) = Inl e"
      by (simp add: distance_to_connectivity_None)
    from convert_with_error [OF this] show ?thesis by (auto simp: format_error_def)
  qed
next
  case (Some p)
  with assms have "convert_with s r (Python p) = Inl e" by (simp add: distance_to_connectivity_Some)
  from convert_with_error [OF this] show ?thesis by (auto simp: format_error_def)
qed

lemma get_igraph_from_adjacency_error:
  "get_igraph_from_adjacency adj = Inl e \<Longrightarrow> e = InternalError"
  by (auto simp: get_igraph_from_adjacency_def Let_def split: if_splits)

text \<open>
  C7, as the specification states it, fails: \<open>igraph_from_sparse_matrix\<close> calls
  \<open>matrix.tocsr()\<close> first, so a matrix in COO format is converted and a graph is built.
\<close>

theorem igraph_from_sparse_matrix_accepts_coo:
  "igraph_from_sparse_matrix [distances_coo] 0 ''distance'' None =
     Inr (\<lparr>vcount = 2, es = [(0, 1), (1, 0)], weight = [1, 1]\<rparr>,
          [distances_coo, distances_coo\<lparr>format := CSR\<rparr>, distances_coo\<lparr>format := CSR\<rparr>])"
proof -
  let ?csr = "distances_coo\<lparr>format := CSR\<rparr>"
  have t: "tocsr [distances_coo] 0 = (1, [distances_coo, ?csr])"
    by (simp add: tocsr_def alloc_def distances_coo_def)
  have canon: "summed ?csr = ?csr"
    by (simp add: summed_def has_canonical_format_def distances_coo_def)
  have mx: "sp_max [distances_coo, ?csr] 1 = Inr (1, [distances_coo, ?csr])"
    by (simp add: sp_max_def sum_duplicates_def canon Let_def)
       (simp add: distances_coo_def data_def np_max_def)
  have cv: "convert_with [distances_coo, ?csr] 1 (Numpy 1) = Inr (2, [distances_coo, ?csr, ?csr])"
    by (simp add: convert_with_exact subtract_from_def distances_coo_def data_def converted_rows_def
        connectivity_def)
  have f: "format ([distances_coo, ?csr] ! 1) = CSR" by simp
  have c: "distance_to_connectivity [distances_coo, ?csr] 1 None =
                  Inr (2, [distances_coo, ?csr, ?csr])"
    unfolding distance_to_connectivity_None [OF f] mx sum.case prod.case by (rule cv)
  have g: "get_igraph_from_adjacency ?csr =
             Inr \<lparr>vcount = 2, es = [(0, 1), (1, 0)], weight = [1, 1]\<rparr>"
    by (simp add: get_igraph_from_adjacency_def nonzero_def getitem_def distances_coo_def Let_def)
  from t c g show ?thesis
    by (simp add: igraph_from_sparse_matrix_def)
qed

text \<open>
  C7, amended. \<open>_distance_to_connectivity\<close> fails with the format error, before any
  conversion, whenever its argument is not in CSR format. \<open>igraph_from_sparse_matrix\<close>
  converts its argument to CSR before the conversion of the distances, so it never fails
  with the format error, whatever the format of the sparse matrix supplied.
\<close>

theorem igraph_from_sparse_matrix_format:
  "(format (s ! matrix) \<noteq> CSR \<longrightarrow>
      distance_to_connectivity s matrix max_value = Inl format_error) \<and>
   igraph_from_sparse_matrix s matrix matrix_type max_value \<noteq> Inl format_error"
proof
  show "format (s ! matrix) \<noteq> CSR \<longrightarrow> distance_to_connectivity s matrix max_value = Inl format_error"
    by (simp add: distance_to_connectivity_not_CSR format_error_def)
next
  obtain matrix1 s1 where t: "tocsr s matrix = (matrix1, s1)" by (cases "tocsr s matrix")
  note csr = tocsr_format [OF t]
  show "igraph_from_sparse_matrix s matrix matrix_type max_value \<noteq> Inl format_error"
  proof
    assume a: "igraph_from_sparse_matrix s matrix matrix_type max_value = Inl format_error"
    show False
    proof (cases "matrix_type = ''distance''")
      case True
      show False
      proof (cases "distance_to_connectivity s1 matrix1 max_value")
        case (Inl e)
        with a t True have "e = format_error" by (simp add: igraph_from_sparse_matrix_def)
        with distance_to_connectivity_error [OF csr Inl] show False by simp
      next
        case (Inr p)
        obtain matrix2 s2 where p: "p = (matrix2, s2)" by (cases p)
        with a t True Inr have "get_igraph_from_adjacency (s2 ! matrix2) = Inl format_error"
          by (simp add: igraph_from_sparse_matrix_def split: sum.splits)
        from get_igraph_from_adjacency_error [OF this] show False by (simp add: format_error_def)
      qed
    next
      case False
      with a t have "get_igraph_from_adjacency (s1 ! matrix1) = Inl format_error"
        by (simp add: igraph_from_sparse_matrix_def split: sum.splits)
      from get_igraph_from_adjacency_error [OF this] show False by (simp add: format_error_def)
    qed
  qed
qed

theorem igraph_from_sparse_matrix_format_witness:
  "format ([distances_coo] ! 0) \<noteq> CSR \<and>
   distance_to_connectivity [distances_coo] 0 None = Inl format_error \<and>
   igraph_from_sparse_matrix [distances_coo] 0 ''distance'' None \<noteq> Inl format_error"
  using igraph_from_sparse_matrix_format [of "[distances_coo]" 0 None "''distance''"]
  by (simp add: distances_coo_def)

subsection \<open>Missing packing modules\<close>

text \<open>
  C9, as the specification states it, fails for \<open>rpack\<close>: the message of the error
  speaks of the 'components layout' and of the package \<open>rectangle-packer\<close>; the
  strategy requested, \<open>rpack\<close>, and the parameter \<open>arrange_boxes\<close> do not occur in it.
\<close>

theorem rpack_error_names_no_strategy:
  "bbox_rpack no_packers [1, 2] 1 1 = Inl (ImportError rpack_missing) \<and>
   \<not> sublist ''rpack'' rpack_missing \<and>
   \<not> sublist ''arrange_boxes'' rpack_missing"
proof -
  have "bbox_rpack no_packers [1, 2] 1 1 = Inl (ImportError rpack_missing)"
    by (simp add: bbox_rpack_def no_packers_def)
  moreover have "\<not> sublist ''rpack'' rpack_missing" by code_simp
  moreover have "\<not> sublist ''arrange_boxes'' rpack_missing" by code_simp
  ultimately show ?thesis by simp
qed

lemma layout_components_rpack:
  "sorted_components ev g = Inr (components, sizes) \<Longrightarrow>
   bbox_rpack ev sizes pad_x pad_y = Inl e \<Longrightarrow>
     layout_components ev g component_layout ''rpack'' pad_x pad_y = Inl e"
  by (simp add: layout_components_def bbox_fun_def)

lemma layout_components_squarify:
  "sorted_components ev g = Inr (components, sizes) \<Longrightarrow>
   bbox_squarify ev sizes pad_x pad_y = Inl e \<Longrightarrow>
     layout_components ev g component_layout ''squarify'' pad_x pad_y = Inl e"
  by (simp add: layout_components_def bbox_fun_def)

text \<open>
  C9, amended. When \<open>rpack\<close> (or \<open>squarify\<close>) is not installed, \<open>_bbox_rpack\<close>
  (\<open>_bbox_squarify\<close>) fails with an ImportError, and so does \<open>layout_components\<close> with
  \<open>arrange_boxes = "rpack"\<close> (\<open>"squarify"\<close>) once the components are sorted. The
  message names the package to install and the \<open>pip install\<close> command for it.
\<close>

theorem missing_packer_error:
  "(rpack ev = None \<longrightarrow>
      bbox_rpack ev sizes pad_x pad_y = Inl (ImportError rpack_missing) \<and>
      (\<forall>g components. sorted_components ev g = Inr (components, sizes) \<longrightarrow>
         layout_components ev g component_layout ''rpack'' pad_x pad_y = Inl (ImportError rpack_missing))) \<and>
   (squarify ev = None \<longrightarrow>
      bbox_squarify ev sizes pad_x pad_y = Inl (ImportError squarify_missing) \<and>
      (\<forall>g components. sorted_components ev g = Inr (components, sizes) \<longrightarrow>
         layout_components ev g component_layout ''squarify'' pad_x pad_y = Inl (ImportError squarify_missing))) \<and>
   sublist ''`rectangle-packer`'' rpack_missing \<and>
   sublist ''`pip install rectangle-packer`'' rpack_missing \<and>
   sublist ''`squarify` package'' squarify_missing \<and>
   sublist ''`pip install squarify`'' squarify_missing"
proof (intro conjI impI allI)
  assume "rpack ev = None"
  then show r: "bbox_rpack ev sizes pad_x pad_y = Inl (ImportError rpack_missing)"
    by (simp add: bbox_rpack_def)
  fix g components assume "sorted_components ev g = Inr (components, sizes)"
  from layout_components_rpack [OF this r]
  show "layout_components ev g component_layout ''rpack'' pad_x pad_y = Inl (ImportError rpack_missing)"
    by simp
next
  assume "squarify ev = None"
  then show r: "bbox_squarify ev sizes pad_x pad_y = Inl (ImportError squarify_missing)"
    by (simp add: bbox_squarify_def)
  fix g components assume "sorted_components ev g = Inr (components, sizes)"
  from layout_components_squarify [OF this r]
  show "layout_components ev g component_layout ''squarify'' pad_x pad_y = Inl (ImportError squarify_missing)"
    by simp
next
  show "sublist ''`rectangle-packer`'' rpack_missing" by code_simp
  show "sublist ''`pip install rectangle-packer`'' rpack_missing" by code_simp
  show "sublist ''`squarify` package'' squarify_missing" by code_simp
  show "sublist ''`pip install squarify`'' squarify_missing" by code_simp
qed

theorem missing_packer_error_witness:
  "rpack no_packers = None \<and> squarify no_packers = None \<and>
   bbox_rpack no_packers [1, 2] 1 1 = Inl (ImportError rpack_missing) \<and>
   bbox_squarify no_packers [1, 2] 1 1 = Inl (ImportError squarify_missing) \<and>
   sorted_components no_packers \<lparr>vcount = 2, es = [(0, 1)], weight = [1]\<rparr> =
     Inr ([\<lparr>vs_id = [0, 1], c_es = [(0, 1)]\<rparr>], [2]) \<and>
   layout_components no_packers \<lparr>vcount = 2, es = [(0, 1)], weight = [1]\<rparr> ''fr'' ''rpack'' 1 1 =
     Inl (ImportError rpack_missing) \<and>
   layout_components no_packers \<lparr>vcount = 2, es = [(0, 1)], weight = [1]\<rparr> ''fr'' ''squarify'' 1 1 =
     Inl (ImportError squarify_missing)"
proof -
  have n: "rpack no_packers = None" "squarify no_packers = None" by (simp_all add: no_packers_def)
  have sc: "sorted_components no_packers \<lparr>vcount = 2, es = [(0, 1)], weight = [1]\<rparr> =
     Inr ([\<lparr>vs_id = [0, 1], c_es = [(0, 1)]\<rparr>], [2])"
    by (simp add: sorted_components_def no_packers_def np_take_def Let_def upt_conv_Cons)
  note r = missing_packer_error [of no_packers "[2]" 1 1 "''fr''", THEN conjunct1, rule_format, OF n(1)]
  note q = missing_packer_error [of no_packers "[2]" 1 1 "''fr''", THEN conjunct2, THEN conjunct1, rule_format, OF n(2)]
  note r2 = missing_packer_error [of no_packers "[1, 2]" 1 1 "''fr''", THEN conjunct1, rule_format, OF n(1)]
  note q2 = missing_packer_error [of no_packers "[1, 2]" 1 1 "''fr''", THEN conjunct2, THEN conjunct1, rule_format, OF n(2)]
  from r [THEN conjunct2, rule_format, OF sc] q [THEN conjunct2, rule_format, OF sc]
    r2 [THEN conjunct1] q2 [THEN conjunct1] n sc
  show ?thesis by simp
qed

subsection \<open>The boxes of \<open>_bbox_rpack\<close>\<close>

lemma overlap_sym: "overlap a b = overlap b a"
  by (auto simp: overlap_def split: prod.splits)

lemma overlap_shrink:
  assumes "overlap (x1, y1, w1, h1) (x2, y2, w2, h2)"
    and "w1 \<le> W1" "h1 \<le> H1" "w2 \<le> W2" "h2 \<le> H2"
  shows "overlap (x1, y1, W1, H1) (x2, y2, W2, H2)"
  using assms by (simp add: overlap_def)

lemma py_int_nonneg: "0 \<le> r \<Longrightarrow> 0 \<le> py_int r"
  by (simp add: py_int_def)

lemma rpack_dimensions_nonneg:
  assumes "0 \<le> pad_x" "0 \<le> pad_y" and "d \<in> set (rpack_dimensions sizes pad_x pad_y)"
  shows "0 \<le> fst d \<and> 0 \<le> snd d"
proof -
  from assms(3) obtain n where "d = (py_int (real n powr 0.8 + pad_x), py_int (real n powr 0.8 + pad_y))"
    by (auto simp: rpack_dimensions_def get_bbox_dimensions_def)
  with assms(1,2) show ?thesis by (simp add: py_int_nonneg)
qed

lemma bbox_rpack_unfold:
  assumes "rpack ev = Some rp"
    and "pack rp (rpack_dimensions sizes pad_x pad_y) = Inr origins"
    and "snd (enclosing_size rp (rpack_dimensions sizes pad_x pad_y) origins) \<noteq> 0"
  shows "bbox_rpack ev sizes pad_x pad_y =
           (let outer = enclosing_size rp (rpack_dimensions sizes pad_x pad_y) origins;
                aspect_ratio = real_of_int (fst outer) / real_of_int (snd outer);
                scale_width = (if aspect_ratio > 1 then 1 else aspect_ratio);
                scale_height = (if aspect_ratio > 1 then aspect_ratio else 1)
            in Inr (rev (map (\<lambda>(origin, d).
                          (real_of_int (fst origin), real_of_int (snd origin),
                           real_of_int (fst d) * scale_width - pad_x,
                           real_of_int (snd d) * scale_height - pad_y))
                        (zip origins (rpack_dimensions sizes pad_x pad_y)))))"
  using assms
  by (simp add: bbox_rpack_def rpack_dimensions_def Let_def case_prod_beta)

lemma no_overlaps_Nil: "no_overlaps []"
  by (simp add: no_overlaps_def)

lemma no_overlaps_Cons:
  "no_overlaps (b # bs) = ((\<forall>c \<in> set bs. \<not> overlap b c) \<and> no_overlaps bs)"
proof
  assume a: "no_overlaps (b # bs)"
  have "\<not> overlap b c" if "c \<in> set bs" for c
  proof -
    from that obtain k where k: "k < length bs" "bs ! k = c" by (auto simp: in_set_conv_nth)
    from a have "\<not> overlap ((b # bs) ! 0) ((b # bs) ! Suc k)"
      unfolding no_overlaps_def using k(1) by (metis length_Cons Suc_less_eq zero_less_Suc nat.distinct(1))
    with k show ?thesis by simp
  qed
  moreover have "no_overlaps bs"
    unfolding no_overlaps_def
  proof (intro allI impI)
    fix i j assume "i < length bs" "j < length bs" "i \<noteq> j"
    with a have "\<not> overlap ((b # bs) ! Suc i) ((b # bs) ! Suc j)"
      unfolding no_overlaps_def by (metis length_Cons Suc_less_eq nat.inject)
    then show "\<not> overlap (bs ! i) (bs ! j)" by simp
  qed
  ultimately show "(\<forall>c \<in> set bs. \<not> overlap b c) \<and> no_overlaps bs" by simp
next
  assume a: "(\<forall>c \<in> set bs. \<not> overlap b c) \<and> no_overlaps bs"
  show "no_overlaps (b # bs)"
    unfolding no_overlaps_def
  proof (intro allI impI)
    fix i j assume i: "i < length (b # bs)" and j: "j < length (b # bs)" and ne: "i \<noteq> j"
    show "\<not> overlap ((b # bs) ! i) ((b # bs) ! j)"
    proof (cases i)
      case 0
      with ne obtain k where k: "j = Suc k" by (cases j) auto
      with j have "bs ! k \<in> set bs" by simp
      with a 0 k show ?thesis by simp
    next
      case (Suc m)
      show ?thesis
      proof (cases j)
        case 0
        from Suc i have "bs ! m \<in> set bs" by simp
        with a have "\<not> overlap b (bs ! m)" by simp
        then show ?thesis using 0 Suc by (simp add: overlap_sym)
      next
        case (Suc k)
        with \<open>i = Suc m\<close> i j ne a show ?thesis
          by (simp add: no_overlaps_def)
      qed
    qed
  qed
qed

lemma floor_powr_08:
  fixes x :: real
  assumes b: "of_int k - 1 \<le> x powr 0.8 \<and> x powr 0.8 < of_int k"
  shows "py_int (x powr 0.8 + 1) = k"
proof -
  have "\<lfloor>x powr 0.8 + 1\<rfloor> = k"
  proof (rule floor_unique)
    from b show "of_int k \<le> x powr 0.8 + 1" by linarith
    from b show "x powr 0.8 + 1 < of_int k + 1" by linarith
  qed
  moreover have "0 \<le> x powr 0.8" by (rule powr_ge_zero)
  then have "0 \<le> x powr 0.8 + 1" by linarith
  ultimately show ?thesis by (simp only: py_int_def if_True)
qed

lemma bounds_3: "2 \<le> (3::real) powr 0.8 \<and> (3::real) powr 0.8 < 3"
proof (rule powr_08_bounds)
  show "(0::real) < 3" "(2::real) ^ 5 \<le> 3 ^ 4" "(3::real) ^ 4 < 3 ^ 5" "(0::real) \<le> 2" "(0::real) \<le> 3"
    by simp_all
qed

lemma bounds_8: "5 \<le> (8::real) powr 0.8 \<and> (8::real) powr 0.8 < 6"
proof (rule powr_08_bounds)
  show "(0::real) < 8" "(5::real) ^ 5 \<le> 8 ^ 4" "(8::real) ^ 4 < 6 ^ 5" "(0::real) \<le> 5" "(0::real) \<le> 6"
    by simp_all
qed

lemma py_int_3: "py_int ((3::real) powr 0.8 + 1) = 3"
proof (rule floor_powr_08)
  from bounds_3 show "of_int 3 - 1 \<le> (3::real) powr 0.8 \<and> (3::real) powr 0.8 < of_int 3" by simp
qed

lemma py_int_8: "py_int ((8::real) powr 0.8 + 1) = 6"
proof (rule floor_powr_08)
  from bounds_8 show "of_int 6 - 1 \<le> (8::real) powr 0.8 \<and> (8::real) powr 0.8 < of_int 6" by simp
qed

lemma rpack_dimensions_338: "rpack_dimensions [3, 3, 8] 1 1 = [(6, 6), (3, 3), (3, 3)]"
proof -
  have "rpack_dimensions [3, 3, 8] 1 1 =
          [(py_int ((8::real) powr 0.8 + 1), py_int ((8::real) powr 0.8 + 1)),
           (py_int ((3::real) powr 0.8 + 1), py_int ((3::real) powr 0.8 + 1)),
           (py_int ((3::real) powr 0.8 + 1), py_int ((3::real) powr 0.8 + 1))]"
    by (simp add: rpack_dimensions_def get_bbox_dimensions_def del: powr_numeral)
  then show ?thesis by (simp only: py_int_3 py_int_8)
qed

text \<open>
  When the enclosing rectangle is not wider than high, only the widths are rescaled, by a
  factor of at most 1, and the boxes do not overlap.
\<close>

lemma bbox_rpack_no_overlap:
  assumes "rpack ev = Some rp"
    and "pack rp (rpack_dimensions sizes pad_x pad_y) = Inr origins"
    and "no_overlaps (map (\<lambda>(origin, d). placed origin d)
                          (zip origins (rpack_dimensions sizes pad_x pad_y)))"
    and "0 \<le> pad_x" and "0 \<le> pad_y"
    and "0 < snd (enclosing_size rp (rpack_dimensions sizes pad_x pad_y) origins)"
    and "fst (enclosing_size rp (rpack_dimensions sizes pad_x pad_y) origins)
           \<le> snd (enclosing_size rp (rpack_dimensions sizes pad_x pad_y) origins)"
  shows "\<exists>bs. bbox_rpack ev sizes pad_x pad_y = Inr bs \<and> no_overlaps bs"
proof -
  define dims where "dims = rpack_dimensions sizes pad_x pad_y"
  define outer where "outer = enclosing_size rp dims origins"
  define a where "a = real_of_int (fst outer) / real_of_int (snd outer)"
  define f :: "(int \<times> int) \<times> (int \<times> int) \<Rightarrow> bbox" where
    "f = (\<lambda>(origin, d). (real_of_int (fst origin), real_of_int (snd origin),
                          real_of_int (fst d) * a - pad_x, real_of_int (snd d) * 1 - pad_y))"
  define zs where "zs = zip origins dims"
  from assms(6,7) have a1: "a \<le> 1" and a_not: "\<not> a > 1"
    by (simp_all add: a_def outer_def dims_def)
  from assms(6) have nz: "snd (enclosing_size rp (rpack_dimensions sizes pad_x pad_y) origins) \<noteq> 0"
    by simp
  have res: "bbox_rpack ev sizes pad_x pad_y = Inr (rev (map f zs))"
    using bbox_rpack_unfold [OF assms(1,2) nz] a_not
    by (simp add: Let_def f_def zs_def a_def outer_def dims_def)
  have inside: "overlap (f z) (f z') \<Longrightarrow> overlap (placed (fst z) (snd z)) (placed (fst z') (snd z'))"
    if z: "z \<in> set zs" and z': "z' \<in> set zs" for z z'
  proof -
    assume ov: "overlap (f z) (f z')"
    have nonneg: "0 \<le> fst (snd p) \<and> 0 \<le> snd (snd p)" if "p \<in> set zs" for p
    proof -
      from that have "(fst p, snd p) \<in> set (zip origins dims)" by (simp add: zs_def)
      then have "snd p \<in> set dims" by (rule set_zip_rightD)
      then show ?thesis
        using rpack_dimensions_nonneg [OF assms(4,5)] by (simp add: dims_def)
    qed
    have shrink: "real_of_int w * a - pad_x \<le> real_of_int w" if "0 \<le> w" for w :: int
    proof -
      from that a1 have "real_of_int w * a \<le> real_of_int w * 1"
        by (intro mult_left_mono) simp_all
      with assms(4) show ?thesis by simp
    qed
    have shrink_h: "real_of_int h * 1 - pad_y \<le> real_of_int h" for h :: int
      using assms(5) by simp
    obtain o1 d1 where zeq: "z = (o1, d1)" by (cases z)
    obtain o2 d2 where zeq': "z' = (o2, d2)" by (cases z')
    from nonneg [OF z] nonneg [OF z'] zeq zeq' have "0 \<le> fst d1" "0 \<le> fst d2" by simp_all
    then have "real_of_int (fst d1) * a - pad_x \<le> real_of_int (fst d1)"
      "real_of_int (fst d2) * a - pad_x \<le> real_of_int (fst d2)"
      by (simp_all add: shrink)
    with ov shrink_h [of "snd d1"] shrink_h [of "snd d2"]
    show ?thesis
      unfolding zeq zeq' f_def placed_def
      by (simp add: overlap_def)
  qed
  have "no_overlaps (rev (map f zs))"
    unfolding no_overlaps_def
  proof (intro allI impI)
    fix i j
    assume i: "i < length (rev (map f zs))" and j: "j < length (rev (map f zs))" and ne: "i \<noteq> j"
    let ?n = "length zs"
    let ?i = "?n - Suc i" and ?j = "?n - Suc j"
    from i j have i': "?i < ?n" and j': "?j < ?n" and ne': "?i \<noteq> ?j"
      using ne by simp_all
    from i j have bi: "rev (map f zs) ! i = f (zs ! ?i)" and bj: "rev (map f zs) ! j = f (zs ! ?j)"
      by (simp_all add: rev_nth)
    from assms(3) i' j' ne'
    have no: "\<not> overlap (placed (fst (zs ! ?i)) (snd (zs ! ?i))) (placed (fst (zs ! ?j)) (snd (zs ! ?j)))"
      unfolding no_overlaps_def zs_def dims_def
      by (simp add: case_prod_beta)
    from i' j' have "zs ! ?i \<in> set zs" "zs ! ?j \<in> set zs" by simp_all
    from inside [OF this] no
    show "\<not> overlap (rev (map f zs) ! i) (rev (map f zs) ! j)"
      unfolding bi bj by blast
  qed
  with res show ?thesis by simp
qed

text \<open>
  C3 does not hold of the code when the enclosing rectangle is wider than high: the
  heights are multiplied by the aspect ratio while the origins stay. For the component
  sizes 3, 3, 8 and the padding 1 the rectangles are 6 by 6, 3 by 3 and 3 by 3. Whatever
  packing of them into the rectangle of 9 by 6 \<open>rpack.pack\<close> returns, the two small
  rectangles are on top of each other, their boxes get the height \<open>3 * 1.5 - 1 = 3.5\<close>,
  and the boxes \<open>_bbox_rpack\<close> returns overlap.
\<close>

theorem bbox_rpack_stacked_overlap:
  assumes "rpack ev = Some rp"
    and "pack rp (rpack_dimensions [3, 3, 8] 1 1) = Inr origins"
    and "enclosing_size rp (rpack_dimensions [3, 3, 8] 1 1) origins = (9, 6)"
    and "valid_packing (9, 6) (rpack_dimensions [3, 3, 8] 1 1) origins"
  shows "\<exists>bs. bbox_rpack ev [3, 3, 8] 1 1 = Inr bs \<and> \<not> no_overlaps bs"
proof -
  note d = rpack_dimensions_338
  from assms(4) have len: "length origins = 3" by (simp add: valid_packing_def d)
  then obtain p0 p1 p2 where o: "origins = [p0, p1, p2]"
    by (auto simp: length_Suc_conv eval_nat_numeral)
  obtain x0 y0 where p0: "p0 = (x0, y0)" by (cases p0)
  obtain x1 y1 where p1: "p1 = (x1, y1)" by (cases p1)
  obtain x2 y2 where p2: "p2 = (x2, y2)" by (cases p2)
  from assms(4) have inside:
    "0 \<le> x0" "0 \<le> y0" "x0 + 6 \<le> 9" "y0 + 6 \<le> 6"
    "0 \<le> x1" "0 \<le> y1" "x1 + 3 \<le> 9" "y1 + 3 \<le> 6"
    "0 \<le> x2" "0 \<le> y2" "x2 + 3 \<le> 9" "y2 + 3 \<le> 6"
    by (simp_all add: valid_packing_def d o p0 p1 p2)
  from assms(4) have apart:
    "\<not> overlap (placed (x0, y0) (6, 6)) (placed (x1, y1) (3, 3))"
    "\<not> overlap (placed (x0, y0) (6, 6)) (placed (x2, y2) (3, 3))"
    by (simp_all add: valid_packing_def d o p0 p1 p2 no_overlaps_Cons no_overlaps_Nil)
  from apart(1) inside have s1: "x1 + 3 \<le> x0 \<or> x0 + 6 \<le> x1"
    by (simp add: overlap_def placed_def) linarith
  from apart(2) inside have s2: "x2 + 3 \<le> x0 \<or> x0 + 6 \<le> x2"
    by (simp add: overlap_def placed_def) linarith
  from s1 s2 inside have same: "x1 = x2" by linarith
  from inside have near: "y1 - y2 \<le> 3" "y2 - y1 \<le> 3" by linarith+
  have nz: "snd (enclosing_size rp (rpack_dimensions [3, 3, 8] 1 1) origins) \<noteq> 0"
    by (simp add: assms(3))
  have res: "bbox_rpack ev [3, 3, 8] 1 1 =
               Inr [(real_of_int x2, real_of_int y2, 2, 7/2),
                    (real_of_int x1, real_of_int y1, 2, 7/2),
                    (real_of_int x0, real_of_int y0, 5, 8)]"
    unfolding bbox_rpack_unfold [OF assms(1,2) nz] assms(3) unfolding d o p0 p1 p2
    by (simp add: Let_def)
  have "overlap (real_of_int x2, real_of_int y2, 2, 7/2) (real_of_int x1, real_of_int y1, 2, 7/2)"
  proof -
    from near have "real_of_int y1 - real_of_int y2 \<le> 3" "real_of_int y2 - real_of_int y1 \<le> 3"
      by (metis of_int_diff of_int_le_iff of_int_numeral)+
    with same show ?thesis by (simp add: overlap_def)
  qed
  then have "\<not> no_overlaps [(real_of_int x2, real_of_int y2, 2, 7/2),
                             (real_of_int x1, real_of_int y1, 2, 7/2),
                             (real_of_int x0, real_of_int y0, 5, 8)]"
    by (simp add: no_overlaps_Cons)
  with res show ?thesis by simp
qed

theorem bbox_rpack_stacked_overlap_witness:
  "bbox_rpack stacked_env [3, 3, 8] 1 1 = Inr [(6, 3, 2, 7/2), (6, 0, 2, 7/2), (0, 0, 5, 8)] \<and>
   overlap (6, 3, 2, 7/2) (6, 0, 2, 7/2)"
proof -
  let ?rp = "\<lparr>pack = (\<lambda>dims. Inr [(0, 0), (6, 0), (6, 3)]), enclosing_size = extent_of\<rparr>"
  let ?origins = "[(0, 0), (6, 0), (6, 3)] :: (int \<times> int) list"
  note d = rpack_dimensions_338
  have r: "rpack stacked_env = Some ?rp" by (simp add: stacked_env_def)
  have p: "pack ?rp (rpack_dimensions [3, 3, 8] 1 1) = Inr ?origins" by simp
  have e: "enclosing_size ?rp (rpack_dimensions [3, 3, 8] 1 1) ?origins = (9, 6)"
    unfolding d by (simp add: extent_of_def)
  have v: "valid_packing (9, 6) (rpack_dimensions [3, 3, 8] 1 1) ?origins"
    unfolding d
    by (simp add: valid_packing_def no_overlaps_Cons no_overlaps_Nil placed_def overlap_def)
  from bbox_rpack_stacked_overlap [OF r p e v]
  obtain bs where bs: "bbox_rpack stacked_env [3, 3, 8] 1 1 = Inr bs" and ov: "\<not> no_overlaps bs"
    by blast
  have nz: "snd (enclosing_size ?rp (rpack_dimensions [3, 3, 8] 1 1) ?origins) \<noteq> 0"
    unfolding e by simp
  have res: "bbox_rpack stacked_env [3, 3, 8] 1 1 = Inr [(6, 3, 2, 7/2), (6, 0, 2, 7/2), (0, 0, 5, 8)]"
    unfolding bbox_rpack_unfold [OF r p nz] e unfolding d by (simp add: Let_def)
  have "overlap (6, 3, 2, 7/2) (6, 0, 2, 7/2)" by (simp add: overlap_def)
  with res bs show ?thesis by simp
qed

subsection \<open>The order of the components\<close>

lemma mset_of_sort: "sort idx = ys \<Longrightarrow> mset idx = mset ys"
  by (metis mset_sort)

lemma sorted_mset_unique:
  fixes xs ys :: "'a::linorder list"
  assumes "sorted xs" "sorted ys" "mset xs = mset ys"
  shows "xs = ys"
  using assms by (metis properties_for_sort)

lemma np_take_perm:
  assumes "sort idx = [0..<length xs]"
  shows "np_take xs idx = Inr (map (\<lambda>i. xs ! i) idx) \<and> mset (map (\<lambda>i. xs ! i) idx) = mset xs"
proof -
  from mset_of_sort [OF assms] have m: "mset idx = mset [0..<length xs]" .
  then have "set idx = set [0..<length xs]" by (rule mset_eq_setD)
  then have "\<forall>i \<in> set idx. i < length xs" by simp
  then have "np_take xs idx = Inr (map (\<lambda>i. xs ! i) idx)" by (simp add: np_take_def)
  moreover have "mset (map (\<lambda>i. xs ! i) idx) = image_mset (\<lambda>i. xs ! i) (mset [0..<length xs])"
    unfolding mset_map m ..
  then have "mset (map (\<lambda>i. xs ! i) idx) = mset (map (\<lambda>i. xs ! i) [0..<length xs])"
    by (simp only: mset_map)
  then have "mset (map (\<lambda>i. xs ! i) idx) = mset xs" by (simp only: map_nth)
  ultimately show ?thesis by simp
qed

lemma sorted_components_is_argsort:
  assumes "is_argsort (map int (map (\<lambda>c. length (vs_id c)) (decompose ev g)))
             (np_argsort ev (map int (map (\<lambda>c. length (vs_id c)) (decompose ev g))))"
  shows "\<exists>components.
           sorted_components ev g = Inr (components, map (\<lambda>c. length (vs_id c)) components) \<and>
           sorted (map (\<lambda>c. length (vs_id c)) components) \<and>
           mset components = mset (decompose ev g)"
proof -
  define cs where "cs = decompose ev g"
  define sizes where "sizes = map (\<lambda>c. length (vs_id c)) cs"
  define order1 where "order1 = np_argsort ev (map int sizes)"
  from assms have srt: "sort order1 = [0..<length cs]"
    and asc: "sorted (map (\<lambda>i. map int sizes ! i) order1)"
    by (simp_all add: is_argsort_def cs_def sizes_def order1_def)
  from srt have srt': "sort order1 = [0..<length sizes]" by (simp add: sizes_def)
  from mset_of_sort [OF srt] have "set order1 = set [0..<length cs]" by (rule mset_eq_setD)
  then have inb: "\<forall>i \<in> set order1. i < length cs" by simp
  note t1 = np_take_perm [OF srt]
  note t2 = np_take_perm [OF srt']
  have sz: "map (\<lambda>i. sizes ! i) order1 = map (\<lambda>c. length (vs_id c)) (map (\<lambda>i. cs ! i) order1)"
    using inb by (simp add: sizes_def)
  have "map (\<lambda>i. map int sizes ! i) order1 = map int (map (\<lambda>i. sizes ! i) order1)"
    using inb by (simp add: sizes_def)
  with asc have "sorted (map int (map (\<lambda>i. sizes ! i) order1))" by simp
  then have "sorted (map (\<lambda>i. sizes ! i) order1)"
    by (simp add: sorted_wrt_map sorted_wrt_iff_nth_less)
  then have asc': "sorted (map (\<lambda>c. length (vs_id c)) (map (\<lambda>i. cs ! i) order1))"
    by (simp only: sz)
  have "sorted_components ev g =
          (case np_take cs order1 of
             Inl e \<Rightarrow> Inl e
           | Inr components1 \<Rightarrow>
               (case np_take sizes order1 of
                  Inl e \<Rightarrow> Inl e
                | Inr component_sizes1 \<Rightarrow> Inr (components1, component_sizes1)))"
    by (simp only: sorted_components_def Let_def cs_def sizes_def order1_def)
  also have "\<dots> = Inr (map (\<lambda>i. cs ! i) order1, map (\<lambda>i. sizes ! i) order1)"
    by (simp only: t1 [THEN conjunct1] t2 [THEN conjunct1] sum.case)
  finally have "sorted_components ev g =
      Inr (map (\<lambda>i. cs ! i) order1, map (\<lambda>c. length (vs_id c)) (map (\<lambda>i. cs ! i) order1))"
    by (simp only: sz)
  with asc' t1 [THEN conjunct2] show ?thesis
    unfolding cs_def [symmetric] by blast
qed

lemma example_argsort_sizes: "stable_argsort [3, 1] = [1, 0]"
  by (simp add: stable_argsort_def upt_conv_Cons)

lemma example_sorted_components:
  "sorted_components example_env example_graph =
     Inr ([\<lparr>vs_id = [1], c_es = []\<rparr>, \<lparr>vs_id = [0, 2, 3], c_es = [(0, 1), (1, 2)]\<rparr>], [1, 3])"
  by (simp add: sorted_components_def example_env_def example_argsort_sizes np_take_def)

text \<open>
  C4, as the specification states it, fails in its second half: \<open>layout_components\<close>
  sorts with \<open>np.argsort(component_sizes)\<close>, whose default sort kind is not stable.
  With an index array that sorts the eighteen equal sizes in another order than the
  order of discovery, the component discovered as number 15 is processed before the one
  discovered as number 1.
\<close>

theorem sorted_components_ties_reordered:
  "decompose unstable_env isolated_18 =
     map (\<lambda>i. \<lparr>vs_id = [i], c_es = []\<rparr>)
       [0, 1, 2, 3, 4, 5, 6, 7, 8, 9, 10, 11, 12, 13, 14, 15, 16, 17] \<and>
   is_argsort (map int (map (\<lambda>c. length (vs_id c)) (decompose unstable_env isolated_18)))
     (np_argsort unstable_env (map int (map (\<lambda>c. length (vs_id c)) (decompose unstable_env isolated_18)))) \<and>
   sorted_components unstable_env isolated_18 =
     Inr (map (\<lambda>i. \<lparr>vs_id = [i], c_es = []\<rparr>)
            [0, 15, 14, 13, 12, 11, 10, 9, 8, 7, 6, 5, 4, 3, 2, 1, 16, 17],
          [1, 1, 1, 1, 1, 1, 1, 1, 1, 1, 1, 1, 1, 1, 1, 1, 1, 1])"
proof -
  have u: "[0..<18] = [0, 1, 2, 3, 4, 5, 6, 7, 8, 9, 10, 11, 12, 13, 14, 15, 16, 17]"
    by code_simp
  have d: "decompose unstable_env isolated_18 =
     map (\<lambda>i. \<lparr>vs_id = [i], c_es = []\<rparr>)
       [0, 1, 2, 3, 4, 5, 6, 7, 8, 9, 10, 11, 12, 13, 14, 15, 16, 17]"
    by (simp add: unstable_env_def isolated_18_def u)
  have a: "np_argsort unstable_env xs = [0, 15, 14, 13, 12, 11, 10, 9, 8, 7, 6, 5, 4, 3, 2, 1, 16, 17]" for xs
    by (simp add: unstable_env_def)
  have s: "sort [0, 15, 14, 13, 12, 11, 10, 9, 8, 7, 6, 5, 4, 3, 2, 1, 16, 17::nat] =
             [0, 1, 2, 3, 4, 5, 6, 7, 8, 9, 10, 11, 12, 13, 14, 15, 16, 17]"
    by code_simp
  have i: "is_argsort (map int (map (\<lambda>c. length (vs_id c)) (decompose unstable_env isolated_18)))
     (np_argsort unstable_env (map int (map (\<lambda>c. length (vs_id c)) (decompose unstable_env isolated_18))))"
    unfolding a d by (simp add: is_argsort_def s u)
  have c: "sorted_components unstable_env isolated_18 =
     Inr (map (\<lambda>i. \<lparr>vs_id = [i], c_es = []\<rparr>)
            [0, 15, 14, 13, 12, 11, 10, 9, 8, 7, 6, 5, 4, 3, 2, 1, 16, 17],
          [1, 1, 1, 1, 1, 1, 1, 1, 1, 1, 1, 1, 1, 1, 1, 1, 1, 1])"
    unfolding sorted_components_def a d by (simp add: np_take_def)
  from d i c show ?thesis by simp
qed

text \<open>
  C4, amended. Whenever \<open>np.argsort\<close> returns an index array that sorts the component
  sizes, \<open>layout_components\<close> processes the components of the decomposition, each once,
  in an order of ascending vertex count. The order of components of equal size is the
  one the index array gives them.
\<close>

theorem sorted_components_ascending:
  assumes "is_argsort (map int (map (\<lambda>c. length (vs_id c)) (decompose ev g)))
             (np_argsort ev (map int (map (\<lambda>c. length (vs_id c)) (decompose ev g))))"
  shows "\<exists>components.
           sorted_components ev g = Inr (components, map (\<lambda>c. length (vs_id c)) components) \<and>
           sorted (map (\<lambda>c. length (vs_id c)) components) \<and>
           mset components = mset (decompose ev g)"
  using assms by (rule sorted_components_is_argsort)

theorem sorted_components_ascending_witness:
  "sorted_components example_env example_graph =
     Inr ([\<lparr>vs_id = [1], c_es = []\<rparr>, \<lparr>vs_id = [0, 2, 3], c_es = [(0, 1), (1, 2)]\<rparr>], [1, 3]) \<and>
   decompose example_env example_graph =
     [\<lparr>vs_id = [0, 2, 3], c_es = [(0, 1), (1, 2)]\<rparr>, \<lparr>vs_id = [1], c_es = []\<rparr>]"
proof -
  have "is_argsort (map int (map (\<lambda>c. length (vs_id c)) (decompose example_env example_graph)))
          (np_argsort example_env
             (map int (map (\<lambda>c. length (vs_id c)) (decompose example_env example_graph))))"
    by (simp add: is_argsort_def example_env_def example_argsort_sizes upt_conv_Cons)
  from sorted_components_ascending [OF this]
  obtain components where
    "sorted_components example_env example_graph = Inr (components, map (\<lambda>c. length (vs_id c)) components)"
    by blast
  with example_sorted_components show ?thesis by (simp add: example_env_def)
qed

subsection \<open>The rows of the result\<close>

lemma rescale_layout_length:
  assumes "coords \<noteq> []"
  shows "\<exists>l. rescale_layout coords bbox = Inr l \<and> length l = length coords"
proof -
  obtain a b c d where bbox: "bbox = (a, b, c, d)" by (cases bbox)
  have "(if \<not> (p::real) = q then q - p else 1) \<noteq> 0" for p q by simp
  then show ?thesis
    using assms unfolding rescale_layout_def Let_def bbox by simp
qed

lemma layout_all_rows:
  assumes "\<forall>z \<in> set zs. \<exists>l. layout_component ev (fst z) (snd z) cl = Inr l \<and> length l = length (vs_id (fst z))"
  shows "\<exists>ls. layout_all ev zs cl = Inr ls \<and> length ls = length zs \<and>
              (\<forall>k < length zs. layout_component ev (fst (zs ! k)) (snd (zs ! k)) cl = Inr (ls ! k) \<and>
                                 length (ls ! k) = length (vs_id (fst (zs ! k))))"
  using assms
proof (induction zs)
  case Nil
  show ?case by simp
next
  case (Cons z zs)
  obtain c b where z: "z = (c, b)" by (cases z)
  from Cons.prems z obtain l where l: "layout_component ev c b cl = Inr l" "length l = length (vs_id c)"
    by auto
  from Cons.prems have "\<forall>z \<in> set zs. \<exists>l. layout_component ev (fst z) (snd z) cl = Inr l \<and> length l = length (vs_id (fst z))"
    by simp
  from Cons.IH [OF this] obtain ls where ls: "layout_all ev zs cl = Inr ls" "length ls = length zs"
    "\<forall>k < length zs. layout_component ev (fst (zs ! k)) (snd (zs ! k)) cl = Inr (ls ! k) \<and>
                       length (ls ! k) = length (vs_id (fst (zs ! k)))"
    by blast
  have run: "layout_all ev (z # zs) cl = Inr (l # ls)"
    using l(1) ls(1) z by simp
  have "layout_component ev (fst ((z # zs) ! k)) (snd ((z # zs) ! k)) cl = Inr ((l # ls) ! k) \<and>
        length ((l # ls) ! k) = length (vs_id (fst ((z # zs) ! k)))" if "k < length (z # zs)" for k
  proof (cases k)
    case 0
    with l z show ?thesis by simp
  next
    case (Suc m)
    with that have "m < length zs" by simp
    with ls(3) Suc show ?thesis by simp
  qed
  with run ls(2) show ?case by simp
qed

lemma concat_nth_parallel:
  assumes "map length xss = map length yss" and "k < length xss" and "v < length (xss ! k)"
  shows "\<exists>p < length (concat xss). concat xss ! p = xss ! k ! v \<and> concat yss ! p = yss ! k ! v"
  using assms
proof (induction xss arbitrary: yss k)
  case Nil
  then show ?case by simp
next
  case (Cons xs xss)
  from Cons.prems(1) obtain ys yss' where yss: "yss = ys # yss'" and len: "length ys = length xs"
    and rest: "map length xss = map length yss'"
    by (cases yss) auto
  show ?case
  proof (cases k)
    case 0
    with Cons.prems(3) have v: "v < length xs" by simp
    with len 0 yss show ?thesis
      by (intro exI [of _ v]) (simp add: nth_append)
  next
    case (Suc m)
    with Cons.prems have "m < length xss" "v < length (xss ! m)" by simp_all
    from Cons.IH [OF rest this] obtain p where p: "p < length (concat xss)"
      "concat xss ! p = xss ! m ! v" "concat yss' ! p = yss' ! m ! v" by blast
    with len Suc yss show ?thesis
      by (intro exI [of _ "length xs + p"]) (simp add: nth_append)
  qed
qed

lemma mset_concat_map_cong:
  "mset xs = mset ys \<Longrightarrow> mset (concat (map f xs)) = mset (concat (map f ys))"
proof -
  assume a: "mset xs = mset ys"
  have "mset (concat (map f zs)) = sum_mset (image_mset (\<lambda>z. mset (f z)) (mset zs))" for zs
    by (induction zs) simp_all
  with a show ?thesis by simp
qed

lemma argsort_inverse:
  fixes ids :: "nat list"
  assumes perm: "mset ids = mset [0..<n]"
    and arg: "is_argsort (map int ids) sorter"
    and p: "p < length ids"
  shows "sorter ! (ids ! p) = p \<and> ids ! p < length sorter"
proof -
  from perm have len: "length ids = n" by (metis mset_eq_length length_upt diff_zero)
  from arg have srt: "sort sorter = [0..<n]" and asc: "sorted (map (\<lambda>i. map int ids ! i) sorter)"
    by (simp_all add: is_argsort_def len)
  from mset_of_sort [OF srt] have ms: "mset sorter = mset [0..<n]" .
  then have slen: "length sorter = n" by (metis mset_eq_length length_upt diff_zero)
  from ms have sset: "set sorter = {0..<n}" by (metis mset_eq_setD set_upt)
  then have inb: "\<forall>i \<in> set sorter. i < length ids" by (simp add: len)
  then have "map (\<lambda>i. map int ids ! i) sorter = map int (map (\<lambda>i. ids ! i) sorter)" by simp
  with asc have "sorted (map int (map (\<lambda>i. ids ! i) sorter))" by simp
  then have s1: "sorted (map (\<lambda>i. ids ! i) sorter)"
    by (simp add: sorted_wrt_map sorted_wrt_iff_nth_less)
  have "mset (map (\<lambda>i. ids ! i) sorter) = image_mset (\<lambda>i. ids ! i) (mset [0..<n])"
    unfolding mset_map ms ..
  also have "\<dots> = mset (map (\<lambda>i. ids ! i) [0..<length ids])" by (simp only: mset_map len)
  also have "\<dots> = mset ids" by (simp only: map_nth)
  finally have "mset (map (\<lambda>i. ids ! i) sorter) = mset [0..<n]" using perm by simp
  from sorted_mset_unique [OF s1 _ this] have eq: "map (\<lambda>i. ids ! i) sorter = [0..<n]" by simp
  from perm have dist: "distinct ids" by (metis mset_eq_imp_distinct_iff distinct_upt)
  from perm have "set ids = {0..<n}" by (metis mset_eq_setD set_upt)
  with p have idn: "ids ! p < n" using nth_mem by fastforce
  from eq idn slen have "map (\<lambda>i. ids ! i) sorter ! (ids ! p) = ids ! p" by simp
  with idn slen have e: "ids ! (sorter ! (ids ! p)) = ids ! p" by simp
  from idn slen inb have "sorter ! (ids ! p) < length ids" by simp
  with dist e p have "sorter ! (ids ! p) = p" by (simp add: nth_eq_iff_index_eq)
  with idn slen show ?thesis by simp
qed

text \<open>
  C1. Let the decomposition consist of \<open>k \<ge> 1\<close> components without an empty one, whose
  \<open>id\<close> attributes are the numbers \<open>0, \<dots>, n - 1\<close>, each once; let the layout of a
  component have one row per vertex, let the two calls of \<open>np.argsort\<close> return index
  arrays that sort their argument, and let the strategy chosen return one box per
  component. Then \<open>layout_components\<close> returns an array of \<open>n\<close> rows, and for every
  component and every vertex of it, the row whose index is the original id of the vertex
  holds the rescaled coordinates of that vertex.
\<close>

theorem layout_components_rows:
  assumes part: "sort (concat (map vs_id (decompose ev g))) = [0..<vcount g]"
    and k1: "decompose ev g \<noteq> []"
    and ne: "\<forall>c \<in> set (decompose ev g). vs_id c \<noteq> []"
    and lay: "\<forall>c \<in> set (decompose ev g). length (layout ev c component_layout) = length (vs_id c)"
    and sort1: "is_argsort (map int (map (\<lambda>c. length (vs_id c)) (decompose ev g)))
                  (np_argsort ev (map int (map (\<lambda>c. length (vs_id c)) (decompose ev g))))"
    and sc: "sorted_components ev g = Inr (components, component_sizes)"
    and sort2: "is_argsort (map int (concat (map vs_id components)))
                  (np_argsort ev (map int (concat (map vs_id components))))"
    and bf: "bbox_fun arrange_boxes = Inr f"
    and bb: "f ev component_sizes pad_x pad_y = Inr bboxes"
    and bl: "length bboxes = length components"
  shows "\<exists>coords.
           layout_components ev g component_layout arrange_boxes pad_x pad_y = Inr coords \<and>
           length coords = vcount g \<and>
           (\<forall>k < length components.
              \<exists>l. layout_component ev (components ! k) (bboxes ! k) component_layout = Inr l \<and>
                  length l = length (vs_id (components ! k)) \<and>
                  (\<forall>v < length l. coords ! (vs_id (components ! k) ! v) = l ! v))"
proof -
  define ids where "ids = concat (map vs_id components)"
  define sorter where "sorter = np_argsort ev (map int ids)"
  define zs where "zs = zip components bboxes"
  let ?n = "vcount g"
  \<comment> \<open>the sorted components are the decomposition, rearranged\<close>
  from sorted_components_is_argsort [OF sort1] sc
  have ms: "mset components = mset (decompose ev g)" by auto
  then have cset: "set components = set (decompose ev g)" by (rule mset_eq_setD)
  from ms k1 have cne: "components \<noteq> []" by auto
  from mset_concat_map_cong [OF ms, of vs_id] mset_of_sort [OF part]
  have perm: "mset ids = mset [0..<?n]" by (simp add: ids_def)
  then have idlen: "length ids = ?n" by (metis mset_eq_length length_upt diff_zero)
  \<comment> \<open>every component is laid out, one row per vertex\<close>
  have each: "\<exists>l. layout_component ev (fst z) (snd z) component_layout = Inr l \<and>
                  length l = length (vs_id (fst z))" if "z \<in> set zs" for z
  proof -
    from that have "fst z \<in> set components"
      unfolding zs_def by (metis prod.collapse set_zip_leftD)
    with cset ne lay have "layout ev (fst z) component_layout \<noteq> []"
      and "length (layout ev (fst z) component_layout) = length (vs_id (fst z))"
      by auto
    with rescale_layout_length [of "layout ev (fst z) component_layout" "snd z"]
    show ?thesis by (simp add: layout_component_def)
  qed
  then have "\<forall>z \<in> set zs. \<exists>l. layout_component ev (fst z) (snd z) component_layout = Inr l \<and>
                  length l = length (vs_id (fst z))" by blast
  from layout_all_rows [OF this] obtain ls where
    run: "layout_all ev zs component_layout = Inr ls" and lslen: "length ls = length zs"
    and rows: "\<forall>k < length zs. layout_component ev (fst (zs ! k)) (snd (zs ! k)) component_layout = Inr (ls ! k) \<and>
                 length (ls ! k) = length (vs_id (fst (zs ! k)))"
    by blast
  from bl have zlen: "length zs = length components" by (simp add: zs_def)
  with lslen cne have lsne: "ls \<noteq> []" by auto
  have row: "layout_component ev (components ! k) (bboxes ! k) component_layout = Inr (ls ! k) \<and>
             length (ls ! k) = length (vs_id (components ! k))" if "k < length components" for k
    using rows that zlen bl by (simp add: zs_def)
  have lens: "map length (map vs_id components) = map length ls"
    by (rule nth_equalityI) (simp_all add: lslen zlen row)
  have stlen: "length (concat ls) = ?n"
  proof -
    have "length (concat ls) = sum_list (map length ls)" by (simp add: length_concat)
    also have "\<dots> = sum_list (map length (map vs_id components))" by (simp only: lens)
    also have "\<dots> = length ids" by (simp add: ids_def length_concat)
    finally show ?thesis by (simp add: idlen)
  qed
  \<comment> \<open>the index array brings the rows into the order of the vertex ids\<close>
  from sort2 have arg: "is_argsort (map int ids) sorter" by (simp add: ids_def sorter_def)
  then have "sort sorter = [0..<?n]" by (simp add: is_argsort_def idlen)
  from mset_of_sort [OF this] have sm: "mset sorter = mset [0..<?n]" .
  then have slen: "length sorter = ?n" by (metis mset_eq_length length_upt diff_zero)
  from sm have "set sorter = {0..<?n}" by (metis mset_eq_setD set_upt)
  then have "\<forall>i \<in> set sorter. i < length (concat ls)" by (simp add: stlen)
  then have take: "np_take (concat ls) sorter = Inr (map (\<lambda>i. concat ls ! i) sorter)"
    by (simp add: np_take_def)
  define coords where "coords = map (\<lambda>i. concat ls ! i) sorter"
  have res: "layout_components ev g component_layout arrange_boxes pad_x pad_y = Inr coords"
    using sc bf bb run lsne take
    by (simp add: layout_components_def Let_def zs_def [symmetric] ids_def [symmetric]
        sorter_def [symmetric] coords_def)
  have clen: "length coords = ?n" by (simp add: coords_def slen)
  have at: "coords ! (vs_id (components ! k) ! v) = ls ! k ! v"
    if k: "k < length components" and v: "v < length (ls ! k)" for k v
  proof -
    from k v row have v': "v < length (map vs_id components ! k)" by simp
    from k have k': "k < length (map vs_id components)" by simp
    from concat_nth_parallel [OF lens k' v'] obtain p where
      p: "p < length ids" "ids ! p = map vs_id components ! k ! v" "concat ls ! p = ls ! k ! v"
      unfolding ids_def by blast
    from argsort_inverse [OF perm arg p(1)]
    have inv: "sorter ! (ids ! p) = p" and inb: "ids ! p < length sorter" by simp_all
    from inb have "coords ! (ids ! p) = concat ls ! (sorter ! (ids ! p))" by (simp add: coords_def)
    with inv p k show ?thesis by simp
  qed
  have "\<forall>k < length components.
          \<exists>l. layout_component ev (components ! k) (bboxes ! k) component_layout = Inr l \<and>
              length l = length (vs_id (components ! k)) \<and>
              (\<forall>v < length l. coords ! (vs_id (components ! k) ! v) = l ! v)"
  proof (intro allI impI)
    fix k assume k: "k < length components"
    from row [OF k] at [OF k]
    show "\<exists>l. layout_component ev (components ! k) (bboxes ! k) component_layout = Inr l \<and>
              length l = length (vs_id (components ! k)) \<and>
              (\<forall>v < length l. coords ! (vs_id (components ! k) ! v) = l ! v)"
      by (intro exI [of _ "ls ! k"]) simp
  qed
  with res clen show ?thesis by blast
qed

lemma example_argsort_ids: "stable_argsort [1, 0, 2, 3] = [1, 0, 2, 3]"
  by (simp add: stable_argsort_def upt_conv_Cons)

lemma example_bboxes:
  "bbox_sorted [1, 3] 1 1 = [(0, 0, 1, 1), (0, 3 powr 0.8 + 1, 3 powr 0.8, 3 powr 0.8)]"
  by (simp add: bbox_sorted_def get_bbox_dimensions_def Let_def)

lemma example_layout_small:
  "layout_component example_env \<lparr>vs_id = [1], c_es = []\<rparr> (0, 0, 1, 1) ''fr'' = Inr [(0, 0)]"
  by (simp add: layout_component_def example_env_def rescale_layout_def np_min_def np_max_def)

lemma example_layout_large:
  "layout_component example_env \<lparr>vs_id = [0, 2, 3], c_es = [(0, 1), (1, 2)]\<rparr>
       (0, 3 powr 0.8 + 1, 3 powr 0.8, 3 powr 0.8) ''fr'' =
     Inr [(0, 3 powr 0.8 + 1), (3 powr 0.8 / 2, 3 powr 0.8 + 1), (3 powr 0.8, 3 powr 0.8 + 1)]"
  by (simp add: layout_component_def example_env_def rescale_layout_def np_min_def np_max_def
      upt_conv_Cons Let_def)

lemma example_layout_all:
  "layout_all example_env
     (zip [\<lparr>vs_id = [1], c_es = []\<rparr>, \<lparr>vs_id = [0, 2, 3], c_es = [(0, 1), (1, 2)]\<rparr>]
          (bbox_sorted [1, 3] 1 1)) ''fr'' =
     Inr [[(0, 0)],
          [(0, 3 powr 0.8 + 1), (3 powr 0.8 / 2, 3 powr 0.8 + 1), (3 powr 0.8, 3 powr 0.8 + 1)]]"
  unfolding example_bboxes
  using example_layout_small example_layout_large by simp

lemma example_layout_components:
  "layout_components example_env example_graph ''fr'' ''size'' 1 1 =
     Inr [(0, 3 powr 0.8 + 1), (0, 0), (3 powr 0.8 / 2, 3 powr 0.8 + 1), (3 powr 0.8, 3 powr 0.8 + 1)]"
proof -
  have a: "np_argsort example_env
             (map int (concat (map vs_id [\<lparr>vs_id = [1], c_es = []\<rparr>,
                                          \<lparr>vs_id = [0, 2, 3], c_es = [(0, 1), (1, 2)]\<rparr>]))) = [1, 0, 2, 3]"
    using example_argsort_ids by (simp add: example_env_def)
  have b: "bbox_fun ''size'' = Inr (\<lambda>ev sizes pad_x pad_y. Inr (bbox_sorted sizes pad_x pad_y))"
    by (simp add: bbox_fun_def)
  show ?thesis
    unfolding layout_components_def example_sorted_components Let_def prod.case sum.case b
      example_layout_all a
    by (simp add: np_take_def)
qed

theorem layout_components_rows_witness:
  "layout_components example_env example_graph ''fr'' ''size'' 1 1 =
     Inr [(0, 3 powr 0.8 + 1), (0, 0), (3 powr 0.8 / 2, 3 powr 0.8 + 1), (3 powr 0.8, 3 powr 0.8 + 1)] \<and>
   length [(0 :: real, 3 powr 0.8 + 1 :: real), (0, 0), (3 powr 0.8 / 2, 3 powr 0.8 + 1), (3 powr 0.8, 3 powr 0.8 + 1)]
     = vcount example_graph"
proof -
  have part: "sort (concat (map vs_id (decompose example_env example_graph))) = [0..<vcount example_graph]"
    by (simp add: example_env_def example_graph_def upt_conv_Cons)
  have k1: "decompose example_env example_graph \<noteq> []" by (simp add: example_env_def)
  have ne: "\<forall>c \<in> set (decompose example_env example_graph). vs_id c \<noteq> []"
    by (simp add: example_env_def)
  have lay: "\<forall>c \<in> set (decompose example_env example_graph).
               length (layout example_env c ''fr'') = length (vs_id c)"
    by (simp add: example_env_def)
  have sort1: "is_argsort (map int (map (\<lambda>c. length (vs_id c)) (decompose example_env example_graph)))
          (np_argsort example_env
             (map int (map (\<lambda>c. length (vs_id c)) (decompose example_env example_graph))))"
    by (simp add: is_argsort_def example_env_def example_argsort_sizes upt_conv_Cons)
  have sort2: "is_argsort
     (map int (concat (map vs_id [\<lparr>vs_id = [1], c_es = []\<rparr>, \<lparr>vs_id = [0, 2, 3], c_es = [(0, 1), (1, 2)]\<rparr>])))
     (np_argsort example_env
        (map int (concat (map vs_id [\<lparr>vs_id = [1], c_es = []\<rparr>, \<lparr>vs_id = [0, 2, 3], c_es = [(0, 1), (1, 2)]\<rparr>]))))"
    by (simp add: is_argsort_def example_env_def example_argsort_ids upt_conv_Cons)
  have bf: "bbox_fun ''size'' = Inr (\<lambda>ev sizes pad_x pad_y. Inr (bbox_sorted sizes pad_x pad_y))"
    by (simp add: bbox_fun_def)
  have bb: "(\<lambda>ev sizes pad_x pad_y. Inr (bbox_sorted sizes pad_x pad_y)) example_env [1, 3] 1 1 =
              (Inr (bbox_sorted [1, 3] 1 1) :: error + bbox list)"
    by simp
  have bl: "length (bbox_sorted [1, 3] 1 1) =
              length [\<lparr>vs_id = [1], c_es = []\<rparr>, \<lparr>vs_id = [0, 2, 3], c_es = [(0, 1), (1, 2)]\<rparr>]"
    by (simp add: bbox_sorted_def Let_def get_bbox_dimensions_def)
  from layout_components_rows [OF part k1 ne lay sort1 example_sorted_components sort2 bf bb bl]
  obtain coords where c: "layout_components example_env example_graph ''fr'' ''size'' 1 1 = Inr coords"
    and l: "length coords = vcount example_graph"
    by blast
  from c example_layout_components
  have "coords = [(0, 3 powr 0.8 + 1), (0, 0), (3 powr 0.8 / 2, 3 powr 0.8 + 1), (3 powr 0.8, 3 powr 0.8 + 1)]"
    by simp
  with l example_layout_components show ?thesis by simp
qed

end
